theory Spec2Isabelle
  imports Complex_Main "HOL-Library.Word"
begin

unbundle bit_operations_syntax

chapter \<open>The geophone firmware (Geophone.ino)\<close>

text \<open>
  The sketch samples a geophone at 512 Hz into a double buffer, runs a 512-point
  fixed-point radix-2 FFT with a bit-reversal pass, reports the bins above a threshold and
  lets the threshold be changed over the serial line. Each section below embeds one part
  of \<^verbatim>\<open>src/Geophone.ino\<close>; the theorems follow the definitions.
\<close>

section \<open>Boards and machine integers\<close>

text \<open>
  The source compiles for two boards and selects code with
  \<^verbatim>\<open>#if defined( ARDUINO_AVR_MEGA2560 )\<close> / \<^verbatim>\<open>#elif defined( ARDUINO_SAM_DUE )\<close>.
  The boards differ in what the C types mean: on the Mega (avr-gcc) an \<^verbatim>\<open>int\<close> has 16
  bits and a \<^verbatim>\<open>double\<close> is the 4-byte IEEE binary32; on the Due (arm-gcc) an
  \<^verbatim>\<open>int\<close> has 32 bits and a \<^verbatim>\<open>double\<close> is the 8-byte binary64. A \<^verbatim>\<open>short\<close> has
  16 bits and a \<^verbatim>\<open>long\<close> 32 bits on both.
\<close>

datatype board = ARDUINO_AVR_MEGA2560 | ARDUINO_SAM_DUE

definition int_bits :: "board \<Rightarrow> nat" where
  "int_bits bd = (case bd of ARDUINO_AVR_MEGA2560 \<Rightarrow> 16 | ARDUINO_SAM_DUE \<Rightarrow> 32)"

type_synonym short = "16 word"

text \<open>
  Arithmetic on \<^verbatim>\<open>short\<close> operands is done in \<^verbatim>\<open>int\<close> (the integer promotions). A
  result that does not fit the \<^verbatim>\<open>int\<close> is undefined in C; both compilers compute it
  modulo \<open>2 ^ int_bits\<close> in two's complement, which is what \<open>int_wrap\<close> writes out.
\<close>

definition int_wrap :: "board \<Rightarrow> int \<Rightarrow> int" where
  "int_wrap bd x = signed_take_bit (int_bits bd - 1) x"

definition int_mul :: "board \<Rightarrow> int \<Rightarrow> int \<Rightarrow> int" where
  "int_mul bd x y = int_wrap bd (x * y)"

text \<open>C's integer division truncates towards zero.\<close>

definition c_div :: "int \<Rightarrow> int \<Rightarrow> int" where
  "c_div a b = (if (a < 0) = (b < 0) then \<bar>a\<bar> div \<bar>b\<bar> else - (\<bar>a\<bar> div \<bar>b\<bar>))"

section \<open>Q15 fixed-point arithmetic\<close>

text \<open>
  \<^verbatim>\<open>inline short q15_mul16( short a, short b )
  {
    long product = a * b;
    return( (short)( ( product >> 15 ) & 0x0000ffff ) );
  }\<close>
  The product \<^verbatim>\<open>a * b\<close> is an \<^verbatim>\<open>int\<close> product, widened to \<^verbatim>\<open>long\<close> only afterwards.
  \<^verbatim>\<open>>>\<close> on a negative \<^verbatim>\<open>long\<close> is the arithmetic shift (division by \<open>2 ^ 15\<close>
  rounding down), and the conversion to \<^verbatim>\<open>short\<close> keeps the low 16 bits.
\<close>

definition q15_mul16 :: "board \<Rightarrow> short \<Rightarrow> short \<Rightarrow> short" where
  "q15_mul16 bd a b =
     (let product = int_mul bd (sint a) (sint b)
      in word_of_int (drop_bit 15 product AND 65535))"

text \<open>
  \<^verbatim>\<open>complex_add\<close> and \<^verbatim>\<open>complex_mul\<close> store sums and differences of \<^verbatim>\<open>short\<close>
  values into \<^verbatim>\<open>short\<close> results: 16-bit wrap-around arithmetic.
\<close>

definition complex_add :: "short \<Rightarrow> short \<Rightarrow> short \<Rightarrow> short \<Rightarrow> short \<times> short" where
  "complex_add r1 i1 r2 i2 = (r1 + r2, i1 + i2)"

definition complex_mul :: "board \<Rightarrow> short \<Rightarrow> short \<Rightarrow> short \<Rightarrow> short \<Rightarrow> short \<times> short" where
  "complex_mul bd r1 i1 r2 i2 =
     (q15_mul16 bd r1 r2 - q15_mul16 bd i1 i2,
      q15_mul16 bd r1 i2 + q15_mul16 bd i1 r2)"

text \<open>
  The spec's words for the Q15 product: widen both operands, multiply, shift right
  arithmetically by 15, keep the low 16 bits.
\<close>

definition q15_widened :: "short \<Rightarrow> short \<Rightarrow> short" where
  "q15_widened a b = word_of_int ((sint a * sint b) div 2 ^ 15)"

section \<open>Bit-reversal permutation\<close>

text \<open>
  Arrays are lists; an access outside the array is undefined in C and \<open>None\<close> here.
  \<^verbatim>\<open>swap\<close> exchanges two complex numbers. The element type is left open: the code
  moves the elements and never inspects them.
\<close>

definition swap :: "nat \<Rightarrow> nat \<Rightarrow> 'a list \<times> 'a list \<Rightarrow> ('a list \<times> 'a list) option" where
  "swap first second arrays =
     (case arrays of (real', imaginary) \<Rightarrow>
        if first < length real' \<and> second < length real'
           \<and> first < length imaginary \<and> second < length imaginary
        then (let temp_r = real' ! first;
                  real' = real'[first := real' ! second];
                  real' = real'[second := temp_r];
                  temp_i = imaginary ! first;
                  imaginary = imaginary[first := imaginary ! second];
                  imaginary = imaginary[second := temp_i]
              in Some (real', imaginary))
        else None)"

text \<open>
  \<^verbatim>\<open>unsigned int nodd = ~i;\<close> on a \<open>w\<close>-bit \<^verbatim>\<open>int\<close>, and the inner loop
  \<^verbatim>\<open>for( zeros = 0; nodd & 1; zeros++ ) nodd >>= 1;\<close>
\<close>

definition bitnot :: "nat \<Rightarrow> nat \<Rightarrow> nat" where
  "bitnot w i = 2 ^ w - 1 - i mod 2 ^ w"

function count_zeros :: "nat \<Rightarrow> nat \<Rightarrow> nat" where
  "count_zeros nodd zeros =
     (if odd nodd then count_zeros (nodd div 2) (zeros + 1) else zeros)"
  by pat_completeness auto
termination
  by (relation "measure (\<lambda>(nodd, zeros). nodd)") (auto elim: oddE)

declare count_zeros.simps [simp del]

text \<open>
  The loop \<^verbatim>\<open>for( int i = quartn; i; i-- )\<close>, by recursion on \<open>i\<close>. \<open>w\<close> is the width
  of \<^verbatim>\<open>int\<close>. All values stay below \<open>N\<close>, far from the width of \<^verbatim>\<open>unsigned int\<close>.
\<close>

fun bit_reverse_loop ::
  "nat \<Rightarrow> nat \<Rightarrow> nat \<Rightarrow> nat \<Rightarrow> nat \<Rightarrow> nat \<Rightarrow> nat \<Rightarrow> 'a list \<times> 'a list
     \<Rightarrow> ('a list \<times> 'a list) option" where
  "bit_reverse_loop w halfn quartn nmin1 0 forward rev' arrays = Some arrays"
| "bit_reverse_loop w halfn quartn nmin1 (Suc k) forward rev' arrays =
     (let i = Suc k;
          zeros = count_zeros (bitnot w i) 0;
          forward = forward XOR (push_bit zeros 2);
          rev' = rev' XOR (drop_bit zeros quartn)
      in case (if forward < rev'
               then Option.bind (swap forward rev' arrays)
                      (swap (nmin1 XOR forward) (nmin1 XOR rev'))
               else Some arrays) of
           None \<Rightarrow> None
         | Some arrays \<Rightarrow>
             (case swap (forward XOR 1) (rev' XOR halfn) arrays of
                None \<Rightarrow> None
              | Some arrays \<Rightarrow>
                  bit_reverse_loop w halfn quartn nmin1 k forward rev' arrays))"

definition bit_reverse_complex ::
  "board \<Rightarrow> 'a list \<Rightarrow> 'a list \<Rightarrow> nat \<Rightarrow> ('a list \<times> 'a list) option" where
  "bit_reverse_complex bd real' imag length' =
     (let N = length';
          halfn = drop_bit 1 N;
          quartn = drop_bit 2 N;
          nmin1 = N - 1;
          forward = halfn;
          rev' = 1
      in bit_reverse_loop (int_bits bd) halfn quartn nmin1 quartn forward rev' (real', imag))"

text \<open>
  The spec's words: the index whose \<open>n\<close> low bits are those of \<open>j\<close> in reverse order.
\<close>

fun bit_reversal :: "nat \<Rightarrow> nat \<Rightarrow> nat" where
  "bit_reversal 0 j = 0"
| "bit_reversal (Suc n) j = 2 ^ n * (j mod 2) + bit_reversal n (j div 2)"

text \<open>
  Auxiliary notions for the proof that the loop is the bit reversal. \<open>all_below n P\<close> is
  \<open>\<forall>j<n. P j\<close> in a form the simplifier can run on a numeral; \<open>trailing_zeros i\<close> is
  what the inner loop counts, the number of trailing zero bits of \<open>i\<close>.
\<close>

fun all_below :: "nat \<Rightarrow> (nat \<Rightarrow> bool) \<Rightarrow> bool" where
  "all_below 0 P = True"
| "all_below (Suc n) P = (P n \<and> all_below n P)"

function trailing_zeros :: "nat \<Rightarrow> nat" where
  "trailing_zeros i = (if i = 0 \<or> odd i then 0 else Suc (trailing_zeros (i div 2)))"
  by pat_completeness auto
termination
  by (relation "measure id") auto

declare trailing_zeros.simps [simp del]

text \<open>
  For \<open>N = 512\<close> the loop runs 128 times. In its \<open>m\<close>-th iteration (counted from 0, so
  \<open>i = 128 - m\<close>) \<^verbatim>\<open>forward\<close> is \<open>forward_at m\<close>, twice the \<open>m\<close>-th Gray code, and
  \<^verbatim>\<open>rev\<close> is its bit reversal; \<open>iteration_of\<close> is the inverse of \<open>forward_at\<close>.
  \<open>owner j\<close> is the value of \<^verbatim>\<open>forward\<close> in the iteration that moves the element at
  index \<open>j\<close>, \<open>exchange x y\<close> is what one \<^verbatim>\<open>swap\<close> does to the indexes, and
  \<open>settled m j\<close> is the index whose original element is at \<open>j\<close> after \<open>m\<close> iterations.
\<close>

definition forward_at :: "nat \<Rightarrow> nat" where
  "forward_at m = 2 * (m XOR m div 2)"

definition iteration_of :: "nat \<Rightarrow> nat" where
  "iteration_of x =
     (let g = x div 2
      in g XOR g div 2 XOR g div 4 XOR g div 8 XOR g div 16 XOR g div 32 XOR g div 64)"

definition owner :: "nat \<Rightarrow> nat" where
  "owner j =
     (if j < 256
      then (if even j then min j (bit_reversal 9 j) else j - 1)
      else (if odd j then min (511 - j) (bit_reversal 9 (511 - j))
            else bit_reversal 9 j - 1))"

definition exchange :: "nat \<Rightarrow> nat \<Rightarrow> nat \<Rightarrow> nat" where
  "exchange x y j = (if j = x then y else if j = y then x else j)"

definition settled :: "nat \<Rightarrow> nat \<Rightarrow> nat" where
  "settled m j = (if iteration_of (owner j) < m then bit_reversal 9 j else j)"

section \<open>The 512-point radix-2 FFT\<close>

text \<open>
  The twiddle tables \<^verbatim>\<open>twiddle_real\<close> and \<^verbatim>\<open>twiddle_imag\<close> come from the header
  \<^verbatim>\<open>twiddle_factors_256_br.h\<close>; they are parameters here, read with
  \<^verbatim>\<open>pgm_read_word_near( twiddle_real + group )\<close>. A read past a table or an array is
  \<open>None\<close>.

  One butterfly, the body of the innermost loop: \<^verbatim>\<open>complex_mul\<close> into
  \<^verbatim>\<open>temp_r, temp_i\<close>, then the two \<^verbatim>\<open>complex_add\<close> calls, the first storing to
  \<^verbatim>\<open>butterfly + wingspan\<close> and the second to \<^verbatim>\<open>butterfly\<close>.
\<close>

definition fft_butterfly ::
  "board \<Rightarrow> short \<Rightarrow> short \<Rightarrow> nat \<Rightarrow> nat \<Rightarrow> short list \<times> short list
     \<Rightarrow> (short list \<times> short list) option" where
  "fft_butterfly bd WR WI wingspan butterfly arrays =
     (case arrays of (data_real, data_imag) \<Rightarrow>
        if butterfly + wingspan < length data_real \<and> butterfly + wingspan < length data_imag
        then
          (let (temp_r, temp_i) =
                 complex_mul bd WR WI (data_real ! (butterfly + wingspan))
                                      (data_imag ! (butterfly + wingspan));
               (res_r, res_i) =
                 complex_add (data_real ! butterfly) (data_imag ! butterfly)
                             (- temp_r) (- temp_i);
               data_real = data_real[butterfly + wingspan := res_r];
               data_imag = data_imag[butterfly + wingspan := res_i];
               (res_r, res_i) =
                 complex_add (data_real ! butterfly) (data_imag ! butterfly) temp_r temp_i;
               data_real = data_real[butterfly := res_r];
               data_imag = data_imag[butterfly := res_i]
           in Some (data_real, data_imag))
        else None)"

text \<open>\<^verbatim>\<open>for( int butterfly = lower; butterfly < upper; butterfly++ )\<close>\<close>

function fft_butterflies ::
  "board \<Rightarrow> short \<Rightarrow> short \<Rightarrow> nat \<Rightarrow> nat \<Rightarrow> nat \<Rightarrow> short list \<times> short list
     \<Rightarrow> (short list \<times> short list) option" where
  "fft_butterflies bd WR WI wingspan butterfly upper arrays =
     (if butterfly < upper
      then (case fft_butterfly bd WR WI wingspan butterfly arrays of
              None \<Rightarrow> None
            | Some arrays \<Rightarrow> fft_butterflies bd WR WI wingspan (butterfly + 1) upper arrays)
      else Some arrays)"
  by pat_completeness auto
termination
  by (relation "measure (\<lambda>(bd, WR, WI, wingspan, butterfly, upper, arrays). upper - butterfly)")
     auto

declare fft_butterflies.simps [simp del]

text \<open>\<^verbatim>\<open>for( int group = 0; group < stage; group++ )\<close>\<close>

function fft_groups ::
  "board \<Rightarrow> short list \<Rightarrow> short list \<Rightarrow> nat \<Rightarrow> nat \<Rightarrow> nat \<Rightarrow> nat
     \<Rightarrow> short list \<times> short list \<Rightarrow> (short list \<times> short list) option" where
  "fft_groups bd twiddle_real twiddle_imag pairs_per_group wingspan group' stage arrays =
     (if group' < stage
      then (if group' < length twiddle_real \<and> group' < length twiddle_imag
            then (let WR = twiddle_real ! group';
                      WI = twiddle_imag ! group';
                      lower = 2 * group' * pairs_per_group;
                      upper = lower + pairs_per_group
                  in case fft_butterflies bd WR WI wingspan lower upper arrays of
                       None \<Rightarrow> None
                     | Some arrays \<Rightarrow>
                         fft_groups bd twiddle_real twiddle_imag pairs_per_group wingspan
                           (group' + 1) stage arrays)
            else None)
      else Some arrays)"
  by pat_completeness auto
termination
  by (relation "measure (\<lambda>(bd, twr, twi, ppg, wingspan, group', stage, arrays). stage - group')")
     auto

declare fft_groups.simps [simp del]

text \<open>
  \<^verbatim>\<open>for( int stage = 1; stage < length; ) { ...; pairs_per_group = pairs_per_group >> 1;
  stage = stage << 1; wingspan = wingspan >> 1; }\<close>
  The loop has no termination measure of its own (from \<open>stage = 0\<close> it would not end), so
  it is a partial function: not returning is \<open>None\<close>.
\<close>

partial_function (option) fft_stages ::
  "board \<Rightarrow> short list \<Rightarrow> short list \<Rightarrow> nat \<Rightarrow> nat \<Rightarrow> nat \<Rightarrow> nat
     \<Rightarrow> short list \<times> short list \<Rightarrow> (short list \<times> short list) option" where
  "fft_stages bd twiddle_real twiddle_imag length' pairs_per_group wingspan stage arrays =
     (if stage < length'
      then Option.bind
             (fft_groups bd twiddle_real twiddle_imag pairs_per_group wingspan 0 stage arrays)
             (fft_stages bd twiddle_real twiddle_imag length'
                (drop_bit 1 pairs_per_group) (drop_bit 1 wingspan) (push_bit 1 stage))
      else Some arrays)"

definition fft_radix2_512 ::
  "board \<Rightarrow> short list \<Rightarrow> short list \<Rightarrow> short list \<Rightarrow> short list
     \<Rightarrow> (short list \<times> short list) option" where
  "fft_radix2_512 bd twiddle_real twiddle_imag data_real data_imag =
     (let length' = 512;
          pairs_per_group = length' div 2;
          wingspan = length' div 2
      in fft_stages bd twiddle_real twiddle_imag length' pairs_per_group wingspan 1
           (data_real, data_imag))"

text \<open>
  The spec's words (section 4.3) for the complex product:
  \<open>(r1 + j i1)(r2 + j i2) = (r1 r2 - i1 i2) + j (r1 i2 + i1 r2)\<close>, each term by the Q15
  multiply (the widened product shifted right by 15); the difference and the sum are plain
  16-bit, wrapping.
\<close>

definition spec_complex_mul :: "short \<times> short \<Rightarrow> short \<times> short \<Rightarrow> short \<times> short" where
  "spec_complex_mul x y =
     (q15_widened (fst x) (fst y) - q15_widened (snd x) (snd y),
      q15_widened (fst x) (snd y) + q15_widened (snd x) (fst y))"

text \<open>
  The spec's words (section 4.4). One butterfly at index \<open>b\<close> of group \<open>g\<close>:
  \<open>T = W[g] \<times> data[b + wingspan]\<close> (complex multiply),
  \<open>data[b + wingspan] = data[b] - T\<close>, \<open>data[b] = data[b] + T\<close>, both from the old
  \<open>data[b]\<close>.
\<close>

definition spec_butterfly ::
  "short \<times> short \<Rightarrow> nat \<Rightarrow> short list \<times> short list \<Rightarrow> nat \<Rightarrow> short list \<times> short list" where
  "spec_butterfly W wingspan arrays b =
     (let T = spec_complex_mul W (fst arrays ! (b + wingspan), snd arrays ! (b + wingspan));
          old = (fst arrays ! b, snd arrays ! b)
      in ((fst arrays)[b + wingspan := fst old - fst T, b := fst old + fst T],
          (snd arrays)[b + wingspan := snd old - snd T, b := snd old + snd T]))"

text \<open>
  One group: the butterflies \<open>b\<close> in \<open>[2 g pairsPerGroup, 2 g pairsPerGroup + pairsPerGroup)\<close>
  with the twiddle pair \<open>W[g]\<close>. One stage: the groups \<open>g\<close> in \<open>[0, groupCount)\<close>.
\<close>

definition spec_group ::
  "short list \<Rightarrow> short list \<Rightarrow> nat \<Rightarrow> nat \<Rightarrow> short list \<times> short list \<Rightarrow> nat
     \<Rightarrow> short list \<times> short list" where
  "spec_group twiddle_real twiddle_imag pairsPerGroup wingspan arrays g =
     foldl (spec_butterfly (twiddle_real ! g, twiddle_imag ! g) wingspan) arrays
       [2 * g * pairsPerGroup ..< 2 * g * pairsPerGroup + pairsPerGroup]"

definition spec_stage ::
  "short list \<Rightarrow> short list \<Rightarrow> short list \<times> short list \<Rightarrow> nat \<times> nat \<times> nat
     \<Rightarrow> short list \<times> short list" where
  "spec_stage twiddle_real twiddle_imag arrays params =
     (case params of (groupCount, pairsPerGroup, wingspan) \<Rightarrow>
        foldl (spec_group twiddle_real twiddle_imag pairsPerGroup wingspan) arrays
          [0 ..< groupCount])"

text \<open>
  The nine stages: \<open>groupCount\<close> starts at 1 and doubles, \<open>pairsPerGroup\<close> and
  \<open>wingspan\<close> start at \<open>N/2 = 256\<close> and halve.
\<close>

definition spec_stages :: "(nat \<times> nat \<times> nat) list" where
  "spec_stages = map (\<lambda>s. (2 ^ s, 256 div 2 ^ s, 256 div 2 ^ s)) [0 ..< 9]"

definition spec_fft ::
  "short list \<Rightarrow> short list \<Rightarrow> short list \<times> short list \<Rightarrow> short list \<times> short list" where
  "spec_fft twiddle_real twiddle_imag arrays =
     foldl (spec_stage twiddle_real twiddle_imag) arrays spec_stages"

text \<open>
  A frame with one sample: the real parts are \<open>(replicate 512 0)[256 := c]\<close>, the imaginary
  parts zero. With the first twiddle pair \<open>W[0] = (32767, 0)\<close> (1.0 in Q15) the first
  butterfly of the first stage leaves \<open>t\<close> at index 0 and \<open>- t\<close> at index 256, where
  \<open>t\<close> is the Q15 product of 32767 and \<open>c\<close>; from then on every butterfly has a zero in
  its upper element, so it copies its lower element up. \<open>impulse_after t m\<close> is the array
  of real parts at the start of the stage whose blocks have \<open>m\<close> elements.
\<close>

definition impulse_after :: "short \<Rightarrow> nat \<Rightarrow> short list" where
  "impulse_after t m =
     map (\<lambda>j. if m dvd j then (if j < 256 then t else - t) else 0) [0 ..< 512]"

section \<open>The sampling interrupt and the double buffer\<close>


definition NUMBER_OF_GEODATA_SAMPLES :: nat where
  "NUMBER_OF_GEODATA_SAMPLES = 512"









section \<open>Doubles\<close>

text \<open>
  A \<^verbatim>\<open>double\<close> is modelled by its object representation, read as an unsigned
  little-endian number: byte \<open>i\<close> of the object is bits \<open>8 i\<close> to \<open>8 i + 7\<close>. That is
  what the EEPROM routines copy byte by byte through \<^verbatim>\<open>(unsigned char*)&threshold\<close>.
  \<open>fp_val\<close> decodes the IEEE 754 value, and the comparisons of the source are the IEEE
  comparisons of the decoded values (every comparison with a NaN is false). Floating-point
  arithmetic itself (rounding) is not modelled: where the source computes, the operation is
  a parameter.
\<close>

type_synonym double = nat

definition sizeof_double :: "board \<Rightarrow> nat" where
  "sizeof_double bd = (case bd of ARDUINO_AVR_MEGA2560 \<Rightarrow> 4 | ARDUINO_SAM_DUE \<Rightarrow> 8)"

definition exponent_bits :: "board \<Rightarrow> nat" where
  "exponent_bits bd = (case bd of ARDUINO_AVR_MEGA2560 \<Rightarrow> 8 | ARDUINO_SAM_DUE \<Rightarrow> 11)"

definition mantissa_bits :: "board \<Rightarrow> nat" where
  "mantissa_bits bd = (case bd of ARDUINO_AVR_MEGA2560 \<Rightarrow> 23 | ARDUINO_SAM_DUE \<Rightarrow> 52)"

datatype fpval = NaN | MInf | Fin real | PInf

definition fp_val :: "board \<Rightarrow> double \<Rightarrow> fpval" where
  "fp_val bd d =
     (let eb = exponent_bits bd;
          mb = mantissa_bits bd;
          bits = d mod 2 ^ (1 + eb + mb);
          negative = (bits div 2 ^ (eb + mb) = 1);
          e = (bits div 2 ^ mb) mod 2 ^ eb;
          m = bits mod 2 ^ mb;
          bias = 2 ^ (eb - 1) - 1
      in if e = 2 ^ eb - 1
         then (if m \<noteq> 0 then NaN else if negative then MInf else PInf)
         else (let magnitude =
                     (if e = 0 then real m * 2 / 2 ^ (bias + mb)
                      else real (2 ^ mb + m) * 2 ^ e / 2 ^ (bias + mb))
               in Fin (if negative then - magnitude else magnitude)))"

fun fp_less :: "fpval \<Rightarrow> fpval \<Rightarrow> bool" where
  "fp_less NaN y = False"
| "fp_less x NaN = False"
| "fp_less MInf MInf = False"
| "fp_less MInf y = True"
| "fp_less PInf y = False"
| "fp_less (Fin x) MInf = False"
| "fp_less (Fin x) (Fin y) = (x < y)"
| "fp_less (Fin x) PInf = True"

fun fp_eq :: "fpval \<Rightarrow> fpval \<Rightarrow> bool" where
  "fp_eq NaN y = False"
| "fp_eq x NaN = False"
| "fp_eq x y = (x = y)"

text \<open>The operators \<^verbatim>\<open><\<close>, \<^verbatim>\<open>>\<close>, \<^verbatim>\<open>>=\<close> and \<^verbatim>\<open>==\<close> on \<^verbatim>\<open>double\<close>.\<close>

definition d_lt :: "board \<Rightarrow> double \<Rightarrow> double \<Rightarrow> bool" where
  "d_lt bd a b = fp_less (fp_val bd a) (fp_val bd b)"

definition d_gt :: "board \<Rightarrow> double \<Rightarrow> double \<Rightarrow> bool" where
  "d_gt bd a b = fp_less (fp_val bd b) (fp_val bd a)"

definition d_eq :: "board \<Rightarrow> double \<Rightarrow> double \<Rightarrow> bool" where
  "d_eq bd a b = fp_eq (fp_val bd a) (fp_val bd b)"

definition d_ge :: "board \<Rightarrow> double \<Rightarrow> double \<Rightarrow> bool" where
  "d_ge bd a b = (d_gt bd a b \<or> d_eq bd a b)"

text \<open>
  The literals \<^verbatim>\<open>0.0\<close>, \<^verbatim>\<open>0.5\<close> (also \<^verbatim>\<open>DEFAULT_AMPLITUDE_THRESHOLD\<close>),
  \<^verbatim>\<open>1.0\<close>, \<^verbatim>\<open>-1.0\<close> and \<^verbatim>\<open>32768.0\<close> in the format of each board.
\<close>

definition d_0_0 :: double where
  "d_0_0 = 0"

definition d_0_5 :: "board \<Rightarrow> double" where
  "d_0_5 bd = (case bd of ARDUINO_AVR_MEGA2560 \<Rightarrow> 0x3F000000
                        | ARDUINO_SAM_DUE \<Rightarrow> 0x3FE0000000000000)"

definition d_1_0 :: "board \<Rightarrow> double" where
  "d_1_0 bd = (case bd of ARDUINO_AVR_MEGA2560 \<Rightarrow> 0x3F800000
                        | ARDUINO_SAM_DUE \<Rightarrow> 0x3FF0000000000000)"

definition d_minus_1_0 :: "board \<Rightarrow> double" where
  "d_minus_1_0 bd = (case bd of ARDUINO_AVR_MEGA2560 \<Rightarrow> 0xBF800000
                              | ARDUINO_SAM_DUE \<Rightarrow> 0xBFF0000000000000)"

definition d_32768_0 :: "board \<Rightarrow> double" where
  "d_32768_0 bd = (case bd of ARDUINO_AVR_MEGA2560 \<Rightarrow> 0x47000000
                            | ARDUINO_SAM_DUE \<Rightarrow> 0x40E0000000000000)"

definition DEFAULT_AMPLITUDE_THRESHOLD :: "board \<Rightarrow> double" where
  "DEFAULT_AMPLITUDE_THRESHOLD bd = d_0_5 bd"

text \<open>The interval \<open>[0.0, 1.0)\<close> of the spec's Threshold.\<close>

definition in_unit_interval :: "board \<Rightarrow> double \<Rightarrow> bool" where
  "in_unit_interval bd d = (d_ge bd d d_0_0 \<and> d_lt bd d (d_1_0 bd))"

text \<open>The floating-point unit: the operations the source computes with.\<close>

record fpu =
  d_of_short :: "short \<Rightarrow> double"
  d_of_int :: "int \<Rightarrow> double"
  d_div :: "double \<Rightarrow> double \<Rightarrow> double"
  d_mul :: "double \<Rightarrow> double \<Rightarrow> double"
  d_add :: "double \<Rightarrow> double \<Rightarrow> double"
  d_sqrt :: "double \<Rightarrow> double"
  short_of_d :: "double \<Rightarrow> short"

section \<open>The serial line\<close>

text \<open>
  What the sketch writes, one item per call of \<^verbatim>\<open>Serial.print\<close> or
  \<^verbatim>\<open>Serial.println\<close>: a string, a \<^verbatim>\<open>short\<close>, or a \<^verbatim>\<open>double\<close> with its number of
  decimals (2 when the call gives none).
\<close>

datatype serial =
    Print string
  | Println string
  | Print_short short
  | Print_double double nat
  | Println_double double nat

section \<open>The report\<close>

definition LOWEST_FREQUENCY_REPORTED :: int where
  "LOWEST_FREQUENCY_REPORTED = 10"

definition HIGHEST_FREQUENCY_REPORTED :: int where
  "HIGHEST_FREQUENCY_REPORTED = 150"

definition SAMPLE_RATE :: int where
  "SAMPLE_RATE = 512"

text \<open>
  \<^verbatim>\<open>LOWEST_FREQUENCY_REPORTED * NUMBER_OF_GEODATA_SAMPLES / SAMPLE_RATE\<close> and
  \<^verbatim>\<open>HIGHEST_FREQUENCY_REPORTED * NUMBER_OF_GEODATA_SAMPLES / SAMPLE_RATE\<close>: products and
  quotients of \<^verbatim>\<open>int\<close> constants, evaluated in \<^verbatim>\<open>int\<close> from left to right.
\<close>

definition lower_frequency_bin :: "board \<Rightarrow> int" where
  "lower_frequency_bin bd =
     c_div (int_mul bd LOWEST_FREQUENCY_REPORTED (int NUMBER_OF_GEODATA_SAMPLES)) SAMPLE_RATE"

definition upper_frequency_bin :: "board \<Rightarrow> int" where
  "upper_frequency_bin bd =
     c_div (int_mul bd HIGHEST_FREQUENCY_REPORTED (int NUMBER_OF_GEODATA_SAMPLES)) SAMPLE_RATE"

text \<open>
  \<^verbatim>\<open>double amplitude = sqrt( real * real + imag * imag );\<close> of a bin, with
  \<^verbatim>\<open>real = (double)freq_real[ frequency_bin ] / 32768.0\<close> and \<^verbatim>\<open>imag\<close> alike.
\<close>

definition bin_amplitude :: "board \<Rightarrow> fpu \<Rightarrow> short \<Rightarrow> short \<Rightarrow> double" where
  "bin_amplitude bd fp re im =
     (let real' = d_div fp (d_of_short fp re) (d_32768_0 bd);
          imag = d_div fp (d_of_short fp im) (d_32768_0 bd)
      in d_sqrt fp (d_add fp (d_mul fp real' real') (d_mul fp imag imag)))"

text \<open>
  \<^verbatim>\<open>(short)frequency\<close> with \<^verbatim>\<open>frequency = (double)SAMPLE_RATE /
  (double)NUMBER_OF_GEODATA_SAMPLES * (double)frequency_bin + 0.5\<close>.
\<close>

definition bin_frequency :: "board \<Rightarrow> fpu \<Rightarrow> nat \<Rightarrow> short" where
  "bin_frequency bd fp frequency_bin =
     short_of_d fp
       (d_add fp
          (d_mul fp
             (d_div fp (d_of_int fp SAMPLE_RATE) (d_of_int fp (int NUMBER_OF_GEODATA_SAMPLES)))
             (d_of_int fp (int frequency_bin)))
          (d_0_5 bd))"

text \<open>
  The loop over the bins, \<^verbatim>\<open>for( frequency_bin = lower_frequency_bin; frequency_bin <=
  upper_frequency_bin; frequency_bin++ )\<close>, carrying \<^verbatim>\<open>first_entry\<close> and what has been
  printed.
\<close>

function report_loop ::
  "board \<Rightarrow> fpu \<Rightarrow> short list \<Rightarrow> short list \<Rightarrow> double \<Rightarrow> nat \<Rightarrow> nat \<Rightarrow> bool \<times> serial list
     \<Rightarrow> (bool \<times> serial list) option" where
  "report_loop bd fp freq_real freq_imag threshold frequency_bin upper st =
     (if frequency_bin \<le> upper
      then (if frequency_bin < length freq_real \<and> frequency_bin < length freq_imag
            then (let amplitude =
                        bin_amplitude bd fp (freq_real ! frequency_bin) (freq_imag ! frequency_bin)
                  in report_loop bd fp freq_real freq_imag threshold (frequency_bin + 1) upper
                       (if d_ge bd amplitude threshold
                        then (False,
                              snd st
                              @ (if fst st then [] else [Print '',''])
                              @ [Print_short (bin_frequency bd fp frequency_bin),
                                 Print '','',
                                 Print_double amplitude 4])
                        else st))
            else None)
      else Some st)"
  by pat_completeness auto
termination
  by (relation
        "measure (\<lambda>(bd, fp, re, im, th, frequency_bin, upper, st). Suc upper - frequency_bin)")
     auto

declare report_loop.simps [simp del]

text \<open>
  \<^verbatim>\<open>report\<close> returns what it printed and the new value of \<^verbatim>\<open>report_was_created\<close>.
  The parameter \<^verbatim>\<open>length\<close> is not used by the source. A negative first bin would
  index before the arrays.
\<close>

definition report ::
  "board \<Rightarrow> fpu \<Rightarrow> short list \<Rightarrow> short list \<Rightarrow> nat \<Rightarrow> double \<Rightarrow> bool
     \<Rightarrow> (serial list \<times> bool) option" where
  "report bd fp freq_real freq_imag length' threshold report_was_created =
     (if lower_frequency_bin bd < 0 then None
      else
        case report_loop bd fp freq_real freq_imag threshold
               (nat (lower_frequency_bin bd)) (nat (upper_frequency_bin bd)) (True, []) of
          None \<Rightarrow> None
        | Some (first_entry, out) \<Rightarrow>
            Some (if first_entry = False then (out @ [Println []], True)
                  else (out, report_was_created)))"

text \<open>
  The spec's words (section 4.5): the bins of a band in ascending order that qualify, each
  as the pair of its rounded frequency and its magnitude, comma-separated; a newline only
  if at least one qualified.
\<close>

definition qualifying_bins ::
  "board \<Rightarrow> fpu \<Rightarrow> short list \<Rightarrow> short list \<Rightarrow> double \<Rightarrow> nat \<Rightarrow> nat \<Rightarrow> nat list" where
  "qualifying_bins bd fp freq_real freq_imag threshold LowBin HighBin =
     filter (\<lambda>b. d_ge bd (bin_amplitude bd fp (freq_real ! b) (freq_imag ! b)) threshold)
       [LowBin ..< Suc HighBin]"

fun comma_separated :: "serial list list \<Rightarrow> serial list" where
  "comma_separated [] = []"
| "comma_separated [x] = x"
| "comma_separated (x # y # ys) = x @ [Print '',''] @ comma_separated (y # ys)"

definition report_line ::
  "board \<Rightarrow> fpu \<Rightarrow> short list \<Rightarrow> short list \<Rightarrow> nat list \<Rightarrow> serial list" where
  "report_line bd fp freq_real freq_imag bins =
     comma_separated
       (map (\<lambda>b. [Print_short (bin_frequency bd fp b), Print '','',
                  Print_double (bin_amplitude bd fp (freq_real ! b) (freq_imag ! b)) 4]) bins)
     @ (if bins = [] then [] else [Println []])"

section \<open>The persistent store\<close>

text \<open>
  The EEPROM is a byte store; only the Mega has one. On the Due the read loop takes every
  byte as 0 and the write routine is empty.
\<close>

type_synonym eeprom = "nat \<Rightarrow> 8 word"

definition AMPLITUDE_THRESHOLD_EEPROM_ADDRESS :: nat where
  "AMPLITUDE_THRESHOLD_EEPROM_ADDRESS = 0"

definition double_of_bytes :: "8 word list \<Rightarrow> double" where
  "double_of_bytes bytes = foldr (\<lambda>b d. unat b + 256 * d) bytes 0"

definition threshold_bytes :: "double \<Rightarrow> nat \<Rightarrow> 8 word" where
  "threshold_bytes threshold i = of_nat ((threshold div 256 ^ i) mod 256)"

definition read_amplitude_threshold_from_eeprom :: "board \<Rightarrow> eeprom \<Rightarrow> double" where
  "read_amplitude_threshold_from_eeprom bd rom =
     (let threshold =
            double_of_bytes
              (map (\<lambda>i. case bd of
                          ARDUINO_AVR_MEGA2560 \<Rightarrow> rom (AMPLITUDE_THRESHOLD_EEPROM_ADDRESS + i)
                        | ARDUINO_SAM_DUE \<Rightarrow> 0)
                 [0 ..< sizeof_double bd])
      in if d_eq bd threshold d_0_0 then DEFAULT_AMPLITUDE_THRESHOLD bd else threshold)"

definition save_amplitude_threshold_to_eeprom :: "board \<Rightarrow> double \<Rightarrow> eeprom \<Rightarrow> eeprom" where
  "save_amplitude_threshold_to_eeprom bd threshold rom =
     (case bd of
        ARDUINO_AVR_MEGA2560 \<Rightarrow>
          fold (\<lambda>i rom. rom(AMPLITUDE_THRESHOLD_EEPROM_ADDRESS + i := threshold_bytes threshold i))
            [0 ..< sizeof_double bd] rom
      | ARDUINO_SAM_DUE \<Rightarrow> rom)"

section \<open>The threshold protocol\<close>

text \<open>
  The statics of \<^verbatim>\<open>get_new_threshold\<close>. \<^verbatim>\<open>threshold_string\<close> is a 20-byte array;
  every index the code uses is below 20.
\<close>

record parser =
  threshold_string :: "nat \<Rightarrow> char"
  threshold_string_pos :: nat
  timestamp :: "32 word"

definition sizeof_threshold_string :: nat where
  "sizeof_threshold_string = 20"

definition timeout :: "32 word" where
  "timeout = 250"

text \<open>The C string at \<^verbatim>\<open>threshold_string\<close>: the bytes before the first NUL.\<close>

definition c_string :: "(nat \<Rightarrow> char) \<Rightarrow> string" where
  "c_string buf = takeWhile (\<lambda>c. c \<noteq> CHR 0x00) (map buf [0 ..< sizeof_threshold_string])"

definition is_terminator :: "char \<Rightarrow> bool" where
  "is_terminator incoming_byte = (incoming_byte = CHR 0x0D \<or> incoming_byte = CHR 0x0A)"

definition is_numerical :: "char \<Rightarrow> bool" where
  "is_numerical incoming_byte =
     ((of_char CHR ''0'' \<le> (of_char incoming_byte :: nat)
         \<and> (of_char incoming_byte :: nat) \<le> of_char CHR ''9'')
      \<or> incoming_byte = CHR ''.'')"

text \<open>
  \<^verbatim>\<open>get_new_threshold\<close>. Its inputs are the library function \<^verbatim>\<open>atof\<close>, the reading
  \<open>now\<close> of \<^verbatim>\<open>millis( )\<close>, the statics and the bytes \<open>rx\<close> waiting in the serial
  input buffer (\<^verbatim>\<open>Serial.available( ) > 0\<close> is \<open>rx \<noteq> []\<close>, \<^verbatim>\<open>Serial.read( )\<close> takes the
  first, \<^verbatim>\<open>flush_serial_input\<close> takes them all). It returns the value it returns in C,
  the statics, the serial input left and what it printed.
\<close>

definition get_new_threshold ::
  "board \<Rightarrow> (string \<Rightarrow> double) \<Rightarrow> 32 word \<Rightarrow> parser \<Rightarrow> string
     \<Rightarrow> double \<times> parser \<times> string \<times> serial list" where
  "get_new_threshold bd atof now p rx =
     (if threshold_string_pos p > 0 \<and> timestamp p + timeout < now
      then (d_minus_1_0 bd, p\<lparr>threshold_string_pos := 0\<rparr>, [], [Println ''E:TIMEOUT''])
      else if rx \<noteq> []
      then
        (let p = (if threshold_string_pos p = 0 then p\<lparr>timestamp := now\<rparr> else p)
         in if threshold_string_pos p < sizeof_threshold_string - 1
            then
              (let incoming_byte = hd rx;
                   rx = tl rx
               in if is_terminator incoming_byte
                  then
                    (let p = p\<lparr>threshold_string :=
                                 (threshold_string p)(threshold_string_pos p := CHR 0x00)\<rparr>;
                         threshold = atof (c_string (threshold_string p))
                     in if d_lt bd threshold d_0_0 \<or> d_ge bd threshold (d_1_0 bd)
                        then (d_minus_1_0 bd, p\<lparr>threshold_string_pos := 0\<rparr>, [],
                              [Println ''E:OVERFLOW''])
                        else (threshold, p\<lparr>threshold_string_pos := 0\<rparr>, [],
                              [Print ''OK:'', Println_double threshold 2]))
                  else if is_numerical incoming_byte
                  then (d_minus_1_0 bd,
                        p\<lparr>threshold_string :=
                            (threshold_string p)(threshold_string_pos p := incoming_byte),
                          threshold_string_pos := threshold_string_pos p + 1\<rparr>,
                        rx, [])
                  else (d_minus_1_0 bd, p\<lparr>threshold_string_pos := 0\<rparr>, [],
                        [Println ''E:NON-NUMERIC'']))
            else (d_minus_1_0 bd, p\<lparr>threshold_string_pos := 0\<rparr>, [], [Println ''E:FLUSH'']))
      else (d_minus_1_0 bd, p, rx, []))"

text \<open>
  The globals the protocol works on, and the part of \<^verbatim>\<open>loop\<close> that serves it
  (lines 729 to 734); the analysis before it touches none of them. \<open>loop\<close> returns the
  new state, the serial input left and what was printed.
\<close>

record device =
  amplitude_threshold :: double
  EEPROM :: eeprom
  statics :: parser

definition loop ::
  "board \<Rightarrow> (string \<Rightarrow> double) \<Rightarrow> 32 word \<Rightarrow> device \<Rightarrow> string
     \<Rightarrow> device \<times> string \<times> serial list" where
  "loop bd atof now dev rx =
     (case get_new_threshold bd atof now (statics dev) rx of
        (threshold, p, rx, out) \<Rightarrow>
          (let dev = dev\<lparr>statics := p\<rparr>
           in (if d_gt bd threshold d_0_0
               then dev\<lparr>EEPROM := save_amplitude_threshold_to_eeprom bd threshold (EEPROM dev),
                        amplitude_threshold := threshold\<rparr>
               else dev,
               rx, out)))"

text \<open>
  \<^verbatim>\<open>setup\<close> (the name is a keyword of Isabelle, hence the prime): the threshold is
  read from the store; the statics start zero-initialised (\<^verbatim>\<open>threshold_string_pos = 0\<close>).
\<close>

definition setup' :: "board \<Rightarrow> eeprom \<Rightarrow> device" where
  "setup' bd rom =
     \<lparr>amplitude_threshold = read_amplitude_threshold_from_eeprom bd rom,
      EEPROM = rom,
      statics = \<lparr>threshold_string = (\<lambda>i. CHR 0x00), threshold_string_pos = 0, timestamp = 0\<rparr>\<rparr>"

text \<open>
  A run of the main loop: each pass has its clock reading and the bytes that arrived on the
  serial line since the pass before. It returns the state, the serial input left and
  everything printed.
\<close>

fun loops ::
  "board \<Rightarrow> (string \<Rightarrow> double) \<Rightarrow> (32 word \<times> string) list \<Rightarrow> device \<times> string \<times> serial list
     \<Rightarrow> device \<times> string \<times> serial list" where
  "loops bd atof [] st = st"
| "loops bd atof ((now, arrived) # passes) (dev, rx, printed) =
     (case loop bd atof now dev (rx @ arrived) of
        (dev, rx, out) \<Rightarrow> loops bd atof passes (dev, rx, printed @ out))"

section \<open>An example state\<close>

text \<open>
  The device after \<open>1.5\<close> has been accumulated, with the default threshold:
  1.5 is \<open>0x3FC00000\<close> in binary32.
\<close>

definition accumulated_1_5 :: device where
  "accumulated_1_5 =
     \<lparr>amplitude_threshold = d_0_5 ARDUINO_AVR_MEGA2560,
      EEPROM = (\<lambda>a. 0),
      statics = \<lparr>threshold_string = (\<lambda>i. CHR 0x00)(0 := CHR ''1'', 1 := CHR ''.'', 2 := CHR ''5''),
                 threshold_string_pos = 3, timestamp = 0\<rparr>\<rparr>"

chapter \<open>Theorems\<close>

section \<open>Q15 multiplication\<close>

lemma sint16_bounds: "- 32768 \<le> sint (a :: short) \<and> sint a \<le> 32767"
  using sint_ge [of a] sint_lt [of a] by simp

lemma short_product_bounds:
  fixes x y :: int
  assumes "- 32768 \<le> x" "x \<le> 32767" "- 32768 \<le> y" "y \<le> 32767"
  shows "- 1073741824 \<le> x * y \<and> x * y \<le> 1073741824"
proof -
  have "\<bar>x\<bar> \<le> 32768" "\<bar>y\<bar> \<le> 32768"
    using assms by auto
  then have "\<bar>x\<bar> * \<bar>y\<bar> \<le> 32768 * 32768"
    by (intro mult_mono) auto
  then have "\<bar>x * y\<bar> \<le> 1073741824"
    by (simp add: abs_mult)
  then show ?thesis by auto
qed

text \<open>With a 32-bit \<^verbatim>\<open>int\<close> the product of two \<^verbatim>\<open>short\<close> values never wraps.\<close>

lemma int_mul_due:
  "int_mul ARDUINO_SAM_DUE (sint (a :: short)) (sint (b :: short)) = sint a * sint b"
proof -
  have "- 1073741824 \<le> sint a * sint b \<and> sint a * sint b \<le> 1073741824"
    using short_product_bounds sint16_bounds by blast
  then have "- (2 ^ 31) \<le> sint a * sint b \<and> sint a * sint b < 2 ^ 31"
    by simp
  then show ?thesis
    unfolding int_mul_def int_wrap_def int_bits_def
    by (simp add: signed_take_bit_int_eq_self)
qed

lemma word16_and_mask: "(word_of_int (k AND 65535) :: short) = word_of_int k"
proof -
  have "(65535 :: int) = mask 16"
    by (simp add: mask_eq_exp_minus_1)
  then have "k AND 65535 = take_bit 16 k"
    by (simp only: take_bit_eq_mask)
  then show ?thesis
    by (simp add: word_of_int_eq_iff)
qed

text \<open>
  On the Due, \<^verbatim>\<open>q15_mul16\<close> is the widened product shifted right by 15 and truncated to
  16 bits, for every pair of inputs.
\<close>

lemma q15_mul16_due_widened: "q15_mul16 ARDUINO_SAM_DUE a b = q15_widened a b"
  unfolding q15_mul16_def q15_widened_def Let_def int_mul_due
  by (simp add: drop_bit_eq_div word16_and_mask)

text \<open>
  Claim C4: for every pair of 16-bit inputs \<^verbatim>\<open>q15_mul16( a, b )\<close> is the full widened
  product shifted right arithmetically by 15 and truncated to 16 bits. On the Mega the
  code does not do that: \<^verbatim>\<open>a * b\<close> is multiplied in the 16-bit \<^verbatim>\<open>int\<close> and widened
  to \<^verbatim>\<open>long\<close> too late. For \<open>a = 16384\<close> (0.5 in Q15) and \<open>b = 4\<close> the product 65536
  wraps to 0 and the function returns 0, where the widened product gives 2.
\<close>

theorem q15_mul16_mega_not_widened:
  "q15_mul16 ARDUINO_AVR_MEGA2560 16384 4 = 0 \<and> q15_widened 16384 4 = 2"
  by (simp add: q15_mul16_def q15_widened_def int_mul_def int_wrap_def int_bits_def)

section \<open>The bit-reversal permutation\<close>

lemma all_below_iff: "all_below n P = (\<forall>j<n. P j)"
  by (induction n) (auto simp: less_Suc_eq)

lemma all_below_numeral:
  "all_below (numeral k) P = (P (pred_numeral k) \<and> all_below (pred_numeral k) P)"
  by (simp add: numeral_eq_Suc)

lemma all_below_weak_cong: "n = n' \<Longrightarrow> all_below n P = all_below n' P"
  by simp

text \<open>\<open>bit_reversal\<close> unfolds on a numeral.\<close>

lemma bit_reversal_numeral:
  "bit_reversal (numeral k) j
     = 2 ^ pred_numeral k * (j mod 2) + bit_reversal (pred_numeral k) (j div 2)"
  by (simp add: numeral_eq_Suc)

text \<open>
  Facts about the 512 indexes and the 128 iterations, each checked by running through all
  of them.
\<close>

lemma index_facts:
  "all_below 512 (\<lambda>j.
     bit_reversal 9 j < 512
     \<and> bit_reversal 9 (bit_reversal 9 j) = j
     \<and> owner j < 256
     \<and> owner (bit_reversal 9 j) = owner j
     \<and> forward_at (iteration_of (owner j)) = owner j
     \<and> iteration_of (owner j) < 128
     \<and> (j = owner j + 1 \<or> j = bit_reversal 9 (owner j) + 256
         \<or> (owner j \<le> bit_reversal 9 (owner j)
             \<and> (j = owner j \<or> j = bit_reversal 9 (owner j) \<or> j = 511 - owner j
                 \<or> j = 511 - bit_reversal 9 (owner j)))))"
  by (simp add: all_below_numeral bit_reversal_numeral owner_def forward_at_def iteration_of_def
      Let_def cong: all_below_weak_cong)

lemma iteration_facts:
  "all_below 128 (\<lambda>m.
     forward_at m < 256
     \<and> bit_reversal 9 (forward_at m) < 256
     \<and> forward_at m + 1 \<noteq> bit_reversal 9 (forward_at m)
     \<and> forward_at m + bit_reversal 9 (forward_at m) \<noteq> 255
     \<and> forward_at m \<noteq> 255
     \<and> bit_reversal 9 (forward_at m) \<noteq> 255
     \<and> iteration_of (forward_at m) = m
     \<and> owner (forward_at m + 1) = forward_at m
     \<and> owner (bit_reversal 9 (forward_at m) + 256) = forward_at m
     \<and> (forward_at m \<le> bit_reversal 9 (forward_at m) \<longrightarrow>
           owner (forward_at m) = forward_at m
           \<and> owner (bit_reversal 9 (forward_at m)) = forward_at m
           \<and> owner (511 - forward_at m) = forward_at m
           \<and> owner (511 - bit_reversal 9 (forward_at m)) = forward_at m)
     \<and> bit_reversal 9 (bit_reversal 9 (forward_at m)) = forward_at m
     \<and> bit_reversal 9 (511 - forward_at m) = 511 - bit_reversal 9 (forward_at m)
     \<and> bit_reversal 9 (511 - bit_reversal 9 (forward_at m)) = 511 - forward_at m
     \<and> bit_reversal 9 (forward_at m + 1) = bit_reversal 9 (forward_at m) + 256
     \<and> bit_reversal 9 (bit_reversal 9 (forward_at m) + 256) = forward_at m + 1
     \<and> 511 XOR forward_at m = 511 - forward_at m
     \<and> 511 XOR bit_reversal 9 (forward_at m) = 511 - bit_reversal 9 (forward_at m)
     \<and> forward_at m XOR 1 = forward_at m + 1
     \<and> bit_reversal 9 (forward_at m) XOR 256 = bit_reversal 9 (forward_at m) + 256
     \<and> (if m = 0 then 256 else forward_at (m - 1)) XOR push_bit (trailing_zeros (128 - m)) 2
         = forward_at m
     \<and> (if m = 0 then 1 else bit_reversal 9 (forward_at (m - 1)))
           XOR drop_bit (trailing_zeros (128 - m)) 128
         = bit_reversal 9 (forward_at m))"
  by (simp add: all_below_numeral bit_reversal_numeral owner_def forward_at_def iteration_of_def
      Let_def trailing_zeros.simps push_bit_eq_mult drop_bit_eq_div numeral_2_eq_2 [symmetric]
      cong: all_below_weak_cong)

text \<open>
  The inner loop counts the trailing zeros of \<open>i\<close>, whatever the width of \<^verbatim>\<open>int\<close>.
\<close>

lemma count_zeros_bitnot:
  "0 < i \<Longrightarrow> i < 2 ^ w \<Longrightarrow> count_zeros (bitnot w i) z = z + trailing_zeros i"
proof (induction i arbitrary: w z rule: less_induct)
  case (less i)
  obtain v where w: "w = Suc v"
    using less.prems by (cases w) auto
  have bn: "bitnot w i = 2 ^ w - 1 - i"
    using less.prems by (simp add: bitnot_def)
  show ?case
  proof (cases "odd i")
    case True
    then have "even (2 ^ w - 1 - i)"
      using less.prems w by simp
    then have "count_zeros (bitnot w i) z = z"
      by (subst count_zeros.simps) (simp add: bn)
    moreover have "trailing_zeros i = 0"
      using True by (subst trailing_zeros.simps) simp
    ultimately show ?thesis by simp
  next
    case False
    then obtain k where k: "i = 2 * k"
      by (auto elim: evenE)
    with less.prems have kpos: "0 < k" and klt: "k < 2 ^ v" and ki: "k < i"
      by (simp_all add: w)
    have eq: "2 ^ w - 1 - i = 2 * (2 ^ v - 1 - k) + 1"
      using klt by (simp add: w k algebra_simps)
    have "count_zeros (2 * (2 ^ v - 1 - k) + 1) z = count_zeros (2 ^ v - 1 - k) (z + 1)"
      by (subst count_zeros.simps) simp
    then have "count_zeros (bitnot w i) z = count_zeros (2 ^ v - 1 - k) (z + 1)"
      by (simp only: bn eq)
    also have "2 ^ v - 1 - k = bitnot v k"
      using klt by (simp add: bitnot_def)
    also have "count_zeros (bitnot v k) (z + 1) = z + 1 + trailing_zeros k"
      by (rule less.IH [OF ki kpos klt])
    also have "trailing_zeros i = Suc (trailing_zeros k)"
      using kpos by (subst trailing_zeros.simps) (simp add: k)
    ultimately show ?thesis by simp
  qed
qed

text \<open>
  On arrays given by an index function, \<^verbatim>\<open>swap\<close> composes the function with the
  exchange of the two indexes.
\<close>

lemma swap_map:
  assumes "x < n" and "y < n"
  shows "swap x y (map F [0 ..< n], map G [0 ..< n])
           = Some (map (\<lambda>j. F (exchange x y j)) [0 ..< n],
                   map (\<lambda>j. G (exchange x y j)) [0 ..< n])"
proof -
  have "\<And>H :: nat \<Rightarrow> 'a. (map H [0 ..< n])[x := map H [0 ..< n] ! y, y := map H [0 ..< n] ! x]
          = map (\<lambda>j. H (exchange x y j)) [0 ..< n]"
    using assms by (intro nth_equalityI) (auto simp: nth_list_update exchange_def)
  then show ?thesis
    using assms by (simp add: swap_def Let_def)
qed


lemmas index_fact = index_facts [unfolded all_below_iff, rule_format]
lemmas iteration_fact = iteration_facts [unfolded all_below_iff, rule_format]

text \<open>
  The swaps of the iteration with \<^verbatim>\<open>forward = f\<close> and \<^verbatim>\<open>rev = r\<close> exchange
  disjoint pairs, and move exactly the indexes owned by \<open>f\<close>, each to its bit reversal.
\<close>

lemma exchange_thrice:
  assumes "distinct [a, a', b, b', c, c']"
  shows "exchange a a' (exchange b b' (exchange c c' j))
         = (if j = a then a' else if j = a' then a
            else if j = b then b' else if j = b' then b
            else if j = c then c' else if j = c' then c else j)"
  using assms by (auto simp: exchange_def)

lemma exchanged_index:
  assumes m: "m < 128" and j: "j < 512"
    and f: "f = forward_at m" and r: "r = bit_reversal 9 f"
  shows "(if f < r
          then exchange f r (exchange (511 - f) (511 - r) (exchange (Suc f) (r + 256) j))
          else exchange (Suc f) (r + 256) j)
         = (if owner j = f then bit_reversal 9 j else j)"
proof -
  note I = iteration_fact [OF m, folded f, folded r]
  from I have r256: "r < 256" and fr1: "Suc f \<noteq> r" and fr255: "f + r \<noteq> 255"
    by simp_all
  from I have "f < 256" "f \<noteq> 255"
    by simp_all
  then have f254: "f \<le> 254"
    by simp
  have rr: "r + r \<noteq> 255"
    by presburger
  from I have o: "owner (Suc f) = f" "owner (r + 256) = f"
    by simp_all
  from I have o': "f \<le> r \<Longrightarrow> owner f = f \<and> owner r = f \<and> owner (511 - f) = f \<and> owner (511 - r) = f"
    by simp
  from I have v: "bit_reversal 9 r = f" "bit_reversal 9 (511 - f) = 511 - r"
    "bit_reversal 9 (511 - r) = 511 - f" "bit_reversal 9 (Suc f) = r + 256"
    "bit_reversal 9 (r + 256) = Suc f"
    by simp_all
  from index_fact [OF j] have J: "owner j = f \<Longrightarrow> j = Suc f \<or> j = r + 256
         \<or> (f \<le> r \<and> (j = f \<or> j = r \<or> j = 511 - f \<or> j = 511 - r))"
    by (auto simp: r)
  have low: "Suc f \<noteq> r + 256"
    using f254 by simp
  show ?thesis
  proof (cases "f < r")
    case True
    have d: "distinct [f, r, 511 - f, 511 - r, Suc f, r + 256]"
    proof -
      have "f \<noteq> r" "f \<noteq> 511 - f" "f \<noteq> 511 - r" "f \<noteq> Suc f" "f \<noteq> r + 256"
        using True f254 r256 by simp_all
      moreover have "r \<noteq> 511 - f" "r \<noteq> 511 - r" "r \<noteq> Suc f" "r \<noteq> r + 256"
        using f254 r256 fr1 by simp_all
      moreover have "511 - f \<noteq> 511 - r" "511 - f \<noteq> Suc f" "511 - r \<noteq> Suc f"
        using True f254 r256 by simp_all
      moreover have "511 - f \<noteq> r + 256"
        using fr255 f254 by arith
      moreover have "511 - r \<noteq> r + 256"
        using rr r256 by arith
      ultimately show ?thesis
        using low by simp
    qed
    have le: "f \<le> r"
      using True by simp
    note O = o' [OF le]
    show ?thesis
    proof (cases "owner j = f")
      case False
      with o O have "j \<noteq> f" "j \<noteq> r" "j \<noteq> 511 - f" "j \<noteq> 511 - r" "j \<noteq> Suc f"
        "j \<noteq> r + 256"
        by auto
      with False True show ?thesis
        by (simp add: exchange_thrice [OF d])
    next
      case own: True
      from J [OF own] consider "j = f" | "j = r" | "j = 511 - f" | "j = 511 - r"
        | "j = Suc f" | "j = r + 256"
        by blast
      then show ?thesis
        using d by cases (auto simp: exchange_thrice [OF d] True O o v r [symmetric])
    qed
  next
    case nlt: False
    show ?thesis
    proof (cases "owner j = f")
      case False
      with o have "j \<noteq> Suc f" "j \<noteq> r + 256"
        by auto
      with False nlt show ?thesis
        by (simp add: exchange_def)
    next
      case own: True
      from J [OF own] nlt consider "j = Suc f" | "j = r + 256"
        | "f = r" "j = f" | "f = r" "j = 511 - f"
        by force
      then show ?thesis
      proof cases
        case 1
        with nlt own v show ?thesis by (simp add: exchange_def)
      next
        case 2
        with nlt own v low show ?thesis by (simp add: exchange_def)
      next
        case 3
        with nlt own f254 v show ?thesis by (simp add: exchange_def)
      next
        case 4
        with nlt own v f254 r256 fr255 have "j \<noteq> Suc f" "j \<noteq> r + 256" "bit_reversal 9 j = j"
          by simp_all
        with nlt own show ?thesis by (simp add: exchange_def)
      qed
    qed
  qed
qed


lemma settled_step:
  assumes m: "m < 128" and j: "j < 512"
  shows "settled m (if owner j = forward_at m then bit_reversal 9 j else j) = settled (Suc m) j"
proof -
  from index_fact [OF j] have ob: "owner (bit_reversal 9 j) = owner j"
    and fi: "forward_at (iteration_of (owner j)) = owner j"
    by simp_all
  from iteration_fact [OF m] have it: "iteration_of (forward_at m) = m"
    by simp
  show ?thesis
  proof (cases "owner j = forward_at m")
    case True
    then show ?thesis
      by (simp add: settled_def ob it)
  next
    case False
    then have "iteration_of (owner j) \<noteq> m"
      using fi by auto
    then have "(iteration_of (owner j) < m) = (iteration_of (owner j) < Suc m)"
      by auto
    with False show ?thesis
      by (simp add: settled_def)
  qed
qed

lemma settle_iteration:
  assumes m: "m < 128" and f: "f = forward_at m" and r: "r = bit_reversal 9 f"
  shows "(case (if f < r
                then Option.bind
                       (swap f r (map (\<lambda>j. F (settled m j)) [0 ..< 512],
                                  map (\<lambda>j. G (settled m j)) [0 ..< 512]))
                       (swap (511 XOR f) (511 XOR r))
                else Some (map (\<lambda>j. F (settled m j)) [0 ..< 512],
                           map (\<lambda>j. G (settled m j)) [0 ..< 512])) of
            None \<Rightarrow> None
          | Some arrays \<Rightarrow>
              (case swap (f XOR 1) (r XOR 256) arrays of
                 None \<Rightarrow> None
               | Some arrays \<Rightarrow> K arrays))
         = K (map (\<lambda>j. F (settled (Suc m) j)) [0 ..< 512],
              map (\<lambda>j. G (settled (Suc m) j)) [0 ..< 512])"
proof -
  note I = iteration_fact [OF m, folded f, folded r]
  from I have b: "f < 512" "r < 512" "511 - f < 512" "511 - r < 512" "Suc f < 512" "r + 256 < 512"
    by simp_all
  from I have x: "511 XOR f = 511 - f" "511 XOR r = 511 - r" "f XOR 1 = Suc f"
    "r XOR 256 = r + 256"
    by simp_all
  have e: "\<And>H :: nat \<Rightarrow> 'b.
      map (\<lambda>j. H (settled m
             (if f < r
              then exchange f r (exchange (511 - f) (511 - r) (exchange (Suc f) (r + 256) j))
              else exchange (Suc f) (r + 256) j))) [0 ..< 512]
      = map (\<lambda>j. H (settled (Suc m) j)) [0 ..< 512]"
  proof (rule map_cong [OF refl])
    fix H :: "nat \<Rightarrow> 'b" and j
    assume "j \<in> set [0 ..< 512]"
    then have j: "j < 512"
      by simp
    show "H (settled m
             (if f < r
              then exchange f r (exchange (511 - f) (511 - r) (exchange (Suc f) (r + 256) j))
              else exchange (Suc f) (r + 256) j))
          = H (settled (Suc m) j)"
      by (simp only: exchanged_index [OF m j f r]) (simp only: f settled_step [OF m j])
  qed
  let ?A = "(map (\<lambda>j. F (settled m j)) [0 ..< 512], map (\<lambda>j. G (settled m j)) [0 ..< 512])"
  show ?thesis
  proof (cases "f < r")
    case True
    have s1: "swap f r ?A
        = Some (map (\<lambda>j. F (settled m (exchange f r j))) [0 ..< 512],
                map (\<lambda>j. G (settled m (exchange f r j))) [0 ..< 512])"
      by (rule swap_map [OF b(1) b(2)])
    have s2: "swap (511 - f) (511 - r)
                (map (\<lambda>j. F (settled m (exchange f r j))) [0 ..< 512],
                 map (\<lambda>j. G (settled m (exchange f r j))) [0 ..< 512])
        = Some (map (\<lambda>j. F (settled m (exchange f r (exchange (511 - f) (511 - r) j))))
                  [0 ..< 512],
                map (\<lambda>j. G (settled m (exchange f r (exchange (511 - f) (511 - r) j))))
                  [0 ..< 512])"
      by (rule swap_map [OF b(3) b(4)])
    have s3: "swap (Suc f) (r + 256)
                (map (\<lambda>j. F (settled m (exchange f r (exchange (511 - f) (511 - r) j))))
                   [0 ..< 512],
                 map (\<lambda>j. G (settled m (exchange f r (exchange (511 - f) (511 - r) j))))
                   [0 ..< 512])
        = Some (map (\<lambda>j. F (settled m
                  (exchange f r (exchange (511 - f) (511 - r) (exchange (Suc f) (r + 256) j)))))
                  [0 ..< 512],
                map (\<lambda>j. G (settled m
                  (exchange f r (exchange (511 - f) (511 - r) (exchange (Suc f) (r + 256) j)))))
                  [0 ..< 512])"
      by (rule swap_map [OF b(5) b(6)])
    have e': "\<And>H :: nat \<Rightarrow> 'b.
        map (\<lambda>j. H (settled m
               (exchange f r (exchange (511 - f) (511 - r) (exchange (Suc f) (r + 256) j)))))
          [0 ..< 512]
        = map (\<lambda>j. H (settled (Suc m) j)) [0 ..< 512]"
      using e True by (simp only: if_True)
    show ?thesis
      by (simp only: True if_True x s1 s2 s3 Option.bind.simps option.case e')
  next
    case False
    have s3: "swap (Suc f) (r + 256) ?A
        = Some (map (\<lambda>j. F (settled m (exchange (Suc f) (r + 256) j))) [0 ..< 512],
                map (\<lambda>j. G (settled m (exchange (Suc f) (r + 256) j))) [0 ..< 512])"
      by (rule swap_map [OF b(5) b(6)])
    have e': "\<And>H :: nat \<Rightarrow> 'b.
        map (\<lambda>j. H (settled m (exchange (Suc f) (r + 256) j))) [0 ..< 512]
        = map (\<lambda>j. H (settled (Suc m) j)) [0 ..< 512]"
      using e False by (simp only: if_False)
    show ?thesis
      by (simp only: False if_False x s3 option.case e')
  qed
qed

text \<open>
  The loop invariant: before the iteration numbered \<open>m\<close> the arrays hold the original
  elements at the indexes \<open>settled m\<close>.
\<close>

lemma bit_reverse_loop_settles:
  assumes "i + m = 128" and "128 < (2::nat) ^ w"
  shows "bit_reverse_loop w 256 128 511 i
           (if m = 0 then 256 else forward_at (m - 1))
           (if m = 0 then 1 else bit_reversal 9 (forward_at (m - 1)))
           (map (\<lambda>j. F (settled m j)) [0 ..< 512], map (\<lambda>j. G (settled m j)) [0 ..< 512])
         = Some (map (\<lambda>j. F (settled 128 j)) [0 ..< 512],
                 map (\<lambda>j. G (settled 128 j)) [0 ..< 512])"
  using assms
proof (induction i arbitrary: m)
  case 0
  then show ?case by simp
next
  case (Suc k)
  then have m: "m < 128" and k: "128 - m = Suc k" and km: "k + Suc m = 128"
    by simp_all
  have "Suc k < 2 ^ w"
    using Suc.prems by simp
  then have z: "count_zeros (bitnot w (Suc k)) 0 = trailing_zeros (Suc k)"
    using count_zeros_bitnot [of "Suc k" w 0] by simp
  from iteration_fact [OF m]
  have fw: "(if m = 0 then 256 else forward_at (m - 1)) XOR push_bit (trailing_zeros (Suc k)) 2
            = forward_at m"
    and rv: "(if m = 0 then 1 else bit_reversal 9 (forward_at (m - 1)))
               XOR drop_bit (trailing_zeros (Suc k)) 128
            = bit_reversal 9 (forward_at m)"
    by (simp_all add: k)
  have next_call: "bit_reverse_loop w 256 128 511 k (forward_at m)
           (bit_reversal 9 (forward_at m))
           (map (\<lambda>j. F (settled (Suc m) j)) [0 ..< 512],
            map (\<lambda>j. G (settled (Suc m) j)) [0 ..< 512])
         = Some (map (\<lambda>j. F (settled 128 j)) [0 ..< 512],
                 map (\<lambda>j. G (settled 128 j)) [0 ..< 512])"
    using Suc.IH [OF km Suc.prems(2)] by simp
  show ?case
    unfolding bit_reverse_loop.simps Let_def z fw rv
    by (simp only: settle_iteration [OF m refl refl] next_call)
qed


lemma settled_0: "settled 0 j = j"
  by (simp add: settled_def)

lemma settled_128: "j < 512 \<Longrightarrow> settled 128 j = bit_reversal 9 j"
  using index_fact [of j] by (simp add: settled_def)

lemma bit_reverse_complex_512:
  assumes "length re = 512" and "length im = 512"
  shows "bit_reverse_complex bd re im 512
           = Some (map (\<lambda>j. re ! bit_reversal 9 j) [0 ..< 512],
                   map (\<lambda>j. im ! bit_reversal 9 j) [0 ..< 512])"
proof -
  have w: "128 < (2::nat) ^ int_bits bd"
    by (cases bd) (simp_all add: int_bits_def)
  have re: "re = map (\<lambda>j. re ! settled 0 j) [0 ..< 512]"
    and im: "im = map (\<lambda>j. im ! settled 0 j) [0 ..< 512]"
    using assms map_nth [of re] map_nth [of im] by (simp_all add: settled_0)
  have fin: "\<And>xs :: 'a list. map (\<lambda>j. xs ! settled 128 j) [0 ..< 512]
                = map (\<lambda>j. xs ! bit_reversal 9 j) [0 ..< 512]"
    by (rule map_cong [OF refl]) (simp add: settled_128)
  have "bit_reverse_complex bd re im 512
          = bit_reverse_loop (int_bits bd) 256 128 511 128 256 1 (re, im)"
    by (simp add: bit_reverse_complex_def drop_bit_eq_div)
  also have "\<dots> = bit_reverse_loop (int_bits bd) 256 128 511 128 256 1
                     (map (\<lambda>j. re ! settled 0 j) [0 ..< 512],
                      map (\<lambda>j. im ! settled 0 j) [0 ..< 512])"
    using re im by simp
  also have "\<dots> = Some (map (\<lambda>j. re ! settled 128 j) [0 ..< 512],
                         map (\<lambda>j. im ! settled 128 j) [0 ..< 512])"
    using bit_reverse_loop_settles [of 128 0 "int_bits bd" "\<lambda>j. re ! j" "\<lambda>j. im ! j"] w
    by simp
  finally show ?thesis
    by (simp only: fin)
qed

text \<open>
  Claim C2: for every pair of arrays of length 512, \<^verbatim>\<open>bit_reverse_complex\<close> leaves at
  each index \<open>j\<close> the element that was at the 9-bit reversal of \<open>j\<close>, in both arrays; so
  applying it twice gives the original arrays back. It holds on both boards, and no access
  leaves the arrays.
\<close>

theorem bit_reverse_complex_permutes:
  assumes "length real' = 512" and "length imag = 512"
  shows "bit_reverse_complex bd real' imag 512
           = Some (map (\<lambda>j. real' ! bit_reversal 9 j) [0 ..< 512],
                   map (\<lambda>j. imag ! bit_reversal 9 j) [0 ..< 512])
         \<and> Option.bind (bit_reverse_complex bd real' imag 512)
              (\<lambda>(re, im). bit_reverse_complex bd re im 512)
           = Some (real', imag)"
proof -
  let ?re = "map (\<lambda>j. real' ! bit_reversal 9 j) [0 ..< 512]"
  let ?im = "map (\<lambda>j. imag ! bit_reversal 9 j) [0 ..< 512]"
  have once: "bit_reverse_complex bd real' imag 512 = Some (?re, ?im)"
    by (rule bit_reverse_complex_512 [OF assms])
  have restored: "\<And>xs :: 'a list. length xs = 512 \<Longrightarrow>
      map (\<lambda>j. map (\<lambda>j. xs ! bit_reversal 9 j) [0 ..< 512] ! bit_reversal 9 j) [0 ..< 512] = xs"
  proof -
    fix xs :: "'a list"
    assume len: "length xs = 512"
    have "map (\<lambda>j. map (\<lambda>j. xs ! bit_reversal 9 j) [0 ..< 512] ! bit_reversal 9 j) [0 ..< 512]
        = map (\<lambda>j. xs ! j) [0 ..< 512]"
      by (rule map_cong [OF refl]) (use index_fact in simp)
    also have "\<dots> = xs"
      using len map_nth [of xs] by simp
    finally show "map (\<lambda>j. map (\<lambda>j. xs ! bit_reversal 9 j) [0 ..< 512] ! bit_reversal 9 j)
                    [0 ..< 512] = xs" .
  qed
  have twice: "bit_reverse_complex bd ?re ?im 512 = Some (real', imag)"
    using bit_reverse_complex_512 [of ?re ?im bd] restored [OF assms(1)] restored [OF assms(2)]
    by simp
  show ?thesis
    by (simp add: once twice)
qed

text \<open>The real part counts from 0 to 511 and the imaginary part is zero.\<close>

theorem bit_reverse_complex_permutes_witness:
  "bit_reverse_complex ARDUINO_AVR_MEGA2560 (map word_of_nat [0 ..< 512] :: short list)
     (replicate 512 0) 512
   = Some (map (\<lambda>j. map word_of_nat [0 ..< 512] ! bit_reversal 9 j) [0 ..< 512],
           map (\<lambda>j. replicate 512 0 ! bit_reversal 9 j) [0 ..< 512])"
  using bit_reverse_complex_permutes
    [of "map word_of_nat [0 ..< 512] :: short list" "replicate 512 0" ARDUINO_AVR_MEGA2560]
  by simp

section \<open>The FFT\<close>

text \<open>
  On the Due the loops of \<^verbatim>\<open>fft_radix2_512\<close> are the spec's description, innermost
  first. Every index stays inside the arrays and the tables, so the result is never
  \<open>None\<close>.
\<close>

lemma complex_mul_due:
  "complex_mul ARDUINO_SAM_DUE r1 i1 r2 i2 = spec_complex_mul (r1, i1) (r2, i2)"
  by (simp add: complex_mul_def spec_complex_mul_def q15_mul16_due_widened)

lemma length_spec_butterfly:
  "length (fst (spec_butterfly W wingspan arrays b)) = length (fst arrays)"
  "length (snd (spec_butterfly W wingspan arrays b)) = length (snd arrays)"
  by (simp_all add: spec_butterfly_def Let_def)

lemma length_foldl_spec_butterfly:
  "length (fst (foldl (spec_butterfly W wingspan) arrays bs)) = length (fst arrays)
   \<and> length (snd (foldl (spec_butterfly W wingspan) arrays bs)) = length (snd arrays)"
  by (induction bs arbitrary: arrays) (simp_all add: length_spec_butterfly)

lemma fft_butterfly_due:
  assumes "b + wingspan < length (fst arrays)" and "b + wingspan < length (snd arrays)"
    and "0 < wingspan"
  shows "fft_butterfly ARDUINO_SAM_DUE WR WI wingspan b arrays
           = Some (spec_butterfly (WR, WI) wingspan arrays b)"
  using assms
  by (cases arrays)
     (simp add: fft_butterfly_def spec_butterfly_def complex_add_def complex_mul_due Let_def
        split: prod.splits)

lemma fft_butterflies_due:
  assumes "upper + wingspan \<le> length (fst arrays)" and "upper + wingspan \<le> length (snd arrays)"
    and "0 < wingspan" and "lower \<le> upper"
  shows "fft_butterflies ARDUINO_SAM_DUE WR WI wingspan lower upper arrays
           = Some (foldl (spec_butterfly (WR, WI) wingspan) arrays [lower ..< upper])"
  using assms
proof (induction "upper - lower" arbitrary: lower arrays)
  case 0
  then show ?case
    by (simp add: fft_butterflies.simps)
next
  case (Suc n)
  then have lt: "lower < upper" and n: "n = upper - Suc lower"
    by simp_all
  let ?a = "spec_butterfly (WR, WI) wingspan arrays lower"
  have b: "fft_butterfly ARDUINO_SAM_DUE WR WI wingspan lower arrays = Some ?a"
    by (rule fft_butterfly_due) (use Suc.prems lt in simp_all)
  have "fft_butterflies ARDUINO_SAM_DUE WR WI wingspan (Suc lower) upper ?a
          = Some (foldl (spec_butterfly (WR, WI) wingspan) ?a [Suc lower ..< upper])"
    by (rule Suc.hyps(1) [OF n])
       (use Suc.prems lt in \<open>simp_all add: length_spec_butterfly\<close>)
  then show ?case
    using lt b by (subst fft_butterflies.simps) (simp add: upt_conv_Cons)
qed

lemma length_spec_group:
  "length (fst (spec_group twr twi ppg wingspan arrays g)) = length (fst arrays)
   \<and> length (snd (spec_group twr twi ppg wingspan arrays g)) = length (snd arrays)"
  by (simp add: spec_group_def length_foldl_spec_butterfly)

lemma length_foldl_spec_group:
  "length (fst (foldl (spec_group twr twi ppg wingspan) arrays gs)) = length (fst arrays)
   \<and> length (snd (foldl (spec_group twr twi ppg wingspan) arrays gs)) = length (snd arrays)"
  by (induction gs arbitrary: arrays) (simp_all add: length_spec_group)

lemma fft_groups_due:
  assumes "2 * stage * ppg \<le> length (fst arrays)" and "2 * stage * ppg \<le> length (snd arrays)"
    and "stage \<le> length twr" and "stage \<le> length twi"
    and "0 < ppg" and "g \<le> stage"
  shows "fft_groups ARDUINO_SAM_DUE twr twi ppg ppg g stage arrays
           = Some (foldl (spec_group twr twi ppg ppg) arrays [g ..< stage])"
  using assms
proof (induction "stage - g" arbitrary: g arrays)
  case 0
  then show ?case
    by (simp add: fft_groups.simps)
next
  case (Suc n)
  then have lt: "g < stage" and n: "n = stage - Suc g"
    by simp_all
  have "2 * Suc g * ppg \<le> 2 * stage * ppg"
    using lt by (intro mult_le_mono) simp_all
  then have bound: "2 * g * ppg + ppg + ppg \<le> 2 * stage * ppg"
    by simp
  let ?a = "spec_group twr twi ppg ppg arrays g"
  have bf: "fft_butterflies ARDUINO_SAM_DUE (twr ! g) (twi ! g) ppg (2 * g * ppg)
              (2 * g * ppg + ppg) arrays
          = Some ?a"
    unfolding spec_group_def
    by (rule fft_butterflies_due) (use Suc.prems bound in simp_all)
  have "fft_groups ARDUINO_SAM_DUE twr twi ppg ppg (Suc g) stage ?a
          = Some (foldl (spec_group twr twi ppg ppg) ?a [Suc g ..< stage])"
    by (rule Suc.hyps(1) [OF n]) (use Suc.prems lt in \<open>simp_all add: length_spec_group\<close>)
  then show ?case
    using lt bf Suc.prems
    by (subst fft_groups.simps) (simp add: upt_conv_Cons Let_def)
qed

lemma length_spec_stage:
  "length (fst (spec_stage twr twi arrays params)) = length (fst arrays)
   \<and> length (snd (spec_stage twr twi arrays params)) = length (snd arrays)"
  by (cases params) (simp add: spec_stage_def length_foldl_spec_group)

lemma fft_stages_due:
  assumes "length (fst arrays) = 512" and "length (snd arrays) = 512"
    and "256 \<le> length twr" and "256 \<le> length twi" and "s \<le> 9"
  shows "fft_stages ARDUINO_SAM_DUE twr twi 512 (256 div 2 ^ s) (256 div 2 ^ s) (2 ^ s) arrays
           = Some (foldl (spec_stage twr twi) arrays
                     (map (\<lambda>s. (2 ^ s, 256 div 2 ^ s, 256 div 2 ^ s)) [s ..< 9]))"
  using assms
proof (induction "9 - s" arbitrary: s arrays)
  case 0
  then have "s = 9" by simp
  then show ?case
    by (subst fft_stages.simps) simp
next
  case (Suc n)
  then have lt: "s < 9" and n: "n = 9 - Suc s"
    by simp_all
  then have s8: "s \<le> 8" by simp
  have e256: "(256::nat) = 2 ^ 8"
    by simp
  have dv: "(2::nat) ^ s dvd 256"
    unfolding e256 using s8 by (rule le_imp_power_dvd)
  have p: "(2::nat) ^ s \<le> 256"
    using dv by (rule dvd_imp_le) simp
  have m: "(2::nat) ^ s * (256 div 2 ^ s) = 256"
    using dv by (rule dvd_mult_div_cancel)
  have pos: "0 < (256::nat) div 2 ^ s"
    using m by (intro Nat.gr0I) auto
  have lt512: "(2::nat) ^ s < 512"
    using p by simp
  let ?a = "spec_stage twr twi arrays (2 ^ s, 256 div 2 ^ s, 256 div 2 ^ s)"
  have g: "fft_groups ARDUINO_SAM_DUE twr twi (256 div 2 ^ s) (256 div 2 ^ s) 0 (2 ^ s) arrays
             = Some ?a"
    unfolding spec_stage_def prod.case
    by (rule fft_groups_due) (use Suc.prems p pos m in \<open>simp_all add: mult.assoc\<close>)
  have half: "drop_bit 1 ((256::nat) div 2 ^ s) = 256 div 2 ^ Suc s"
  proof -
    have "(256::nat) div 2 ^ Suc s = 256 div (2 ^ s * 2)"
      by (simp only: power_Suc mult.commute)
    also have "\<dots> = 256 div 2 ^ s div 2"
      by (rule div_mult2_eq)
    finally show ?thesis
      by (simp only: drop_bit_eq_div power_one_right)
  qed
  have dbl: "push_bit 1 ((2::nat) ^ s) = 2 ^ Suc s"
    by (simp add: push_bit_eq_mult)
  have "fft_stages ARDUINO_SAM_DUE twr twi 512 (256 div 2 ^ s) (256 div 2 ^ s) (2 ^ s) arrays
          = Option.bind
              (fft_groups ARDUINO_SAM_DUE twr twi (256 div 2 ^ s) (256 div 2 ^ s) 0 (2 ^ s) arrays)
              (fft_stages ARDUINO_SAM_DUE twr twi 512 (drop_bit 1 (256 div 2 ^ s))
                 (drop_bit 1 (256 div 2 ^ s)) (push_bit 1 (2 ^ s)))"
    using lt512 by (subst fft_stages.simps) (simp only: if_True)
  also have "\<dots> = fft_stages ARDUINO_SAM_DUE twr twi 512 (256 div 2 ^ Suc s)
                     (256 div 2 ^ Suc s) (2 ^ Suc s) ?a"
    by (simp only: g half dbl Option.bind.simps)
  also have "\<dots> = Some (foldl (spec_stage twr twi) ?a
                     (map (\<lambda>s. (2 ^ s, 256 div 2 ^ s, 256 div 2 ^ s)) [Suc s ..< 9]))"
    by (rule Suc.hyps(1) [OF n]) (use Suc.prems lt in \<open>simp_all add: length_spec_stage\<close>)
  also have "\<dots> = Some (foldl (spec_stage twr twi) arrays
                     (map (\<lambda>s. (2 ^ s, 256 div 2 ^ s, 256 div 2 ^ s)) [s ..< 9]))"
    using lt by (simp add: upt_conv_Cons del: power_Suc)
  finally show ?case .
qed

text \<open>
  On the Due \<^verbatim>\<open>fft_radix2_512\<close> returns, and what it returns is the spec's transform:
  nine stages, the group count doubling from 1 while \<open>pairsPerGroup\<close> and \<open>wingspan\<close>
  halve from 256; in each stage, for each group \<open>g\<close> and each butterfly index \<open>b\<close> in
  \<open>[2 g pairsPerGroup, 2 g pairsPerGroup + pairsPerGroup)\<close>,
  \<open>T = W[g] \<times> data[b + wingspan]\<close> by the Q15 complex product, then
  \<open>data[b + wingspan] = data[b] - T\<close> and \<open>data[b] = data[b] + T\<close> from the old
  \<open>data[b]\<close>.
\<close>

lemma fft_radix2_512_due:
  assumes "length data_real = 512" and "length data_imag = 512"
    and "256 \<le> length twiddle_real" and "256 \<le> length twiddle_imag"
  shows "fft_radix2_512 ARDUINO_SAM_DUE twiddle_real twiddle_imag data_real data_imag
           = Some (spec_fft twiddle_real twiddle_imag (data_real, data_imag))"
  using fft_stages_due [of "(data_real, data_imag)" twiddle_real twiddle_imag 0] assms
  by (simp add: fft_radix2_512_def spec_fft_def spec_stages_def)

lemma spec_stages_nine:
  "spec_stages = [(1, 256, 256), (2, 128, 128), (4, 64, 64), (8, 32, 32), (16, 16, 16),
                  (32, 8, 8), (64, 4, 4), (128, 2, 2), (256, 1, 1)]"
  by (simp add: spec_stages_def upt_rec)

text \<open>
  The transform of a frame with a single sample, on either board, from what
  \<^verbatim>\<open>q15_mul16\<close> makes of the one product that is not a product with zero. A product with
  zero is zero on both boards, so a butterfly whose upper element is zero copies its lower
  element up.
\<close>

lemma q15_mul16_zero_right: "q15_mul16 bd a 0 = 0"
  by (simp add: q15_mul16_def int_mul_def int_wrap_def)

lemma q15_mul16_zero_left: "q15_mul16 bd 0 b = 0"
  by (simp add: q15_mul16_def int_mul_def int_wrap_def)

lemma butterfly_zero_partner:
  assumes "b + w < length re" and "b + w < length im"
    and "re ! (b + w) = 0" and "im ! (b + w) = 0"
  shows "fft_butterfly bd WR WI w b (re, im) = Some (re[b + w := re ! b], im[b + w := im ! b])"
  using assms
  by (simp add: fft_butterfly_def complex_mul_def complex_add_def q15_mul16_zero_right Let_def)

lemma replicate_update_same: "(replicate n x)[i := x] = replicate n x"
proof (induction n arbitrary: i)
  case 0
  show ?case by simp
next
  case (Suc n)
  then show ?case by (cases i) simp_all
qed

text \<open>Butterflies over zeros change nothing.\<close>

lemma butterflies_noop:
  assumes "length re = n" and "u + w \<le> n"
    and "\<And>j. l \<le> j \<Longrightarrow> j < u \<Longrightarrow> re ! j = 0 \<and> re ! (j + w) = 0"
  shows "fft_butterflies bd WR WI w l u (re, replicate n 0) = Some (re, replicate n 0)"
  using assms
proof (induction "u - l" arbitrary: l)
  case 0
  then show ?case
    by (simp add: fft_butterflies.simps)
next
  case (Suc k)
  then have lt: "l < u" and k: "k = u - Suc l"
    by simp_all
  have z: "re ! l = 0" "re ! (l + w) = 0"
    using Suc.prems(3) [of l] lt by simp_all
  have "re[l + w := 0] = re"
    using list_update_id [of re "l + w"] z(2) by simp
  then have b: "fft_butterfly bd WR WI w l (re, replicate n 0) = Some (re, replicate n 0)"
    using butterfly_zero_partner [of l w re "replicate n 0" bd WR WI] Suc.prems(1,2) lt z
    by (simp add: replicate_update_same)
  have "fft_butterflies bd WR WI w (Suc l) u (re, replicate n 0) = Some (re, replicate n 0)"
    by (rule Suc.hyps(1) [OF k]) (use Suc.prems in simp_all)
  then show ?case
    using lt b by (subst fft_butterflies.simps) simp
qed

text \<open>
  A group whose block is zero but for its first element: the first butterfly copies that
  element up by \<open>wingspan\<close>, the others change nothing.
\<close>

lemma group_copies_first:
  assumes "length re = n" and "l + 2 * w \<le> n" and "0 < w"
    and "\<And>j. l < j \<Longrightarrow> j < l + 2 * w \<Longrightarrow> re ! j = 0"
  shows "fft_butterflies bd WR WI w l (l + w) (re, replicate n 0)
           = Some (re[l + w := re ! l], replicate n 0)"
proof -
  have b: "fft_butterfly bd WR WI w l (re, replicate n 0)
             = Some (re[l + w := re ! l], replicate n 0)"
    using butterfly_zero_partner [of l w re "replicate n 0" bd WR WI] assms
    by (simp add: replicate_update_same)
  have "fft_butterflies bd WR WI w (Suc l) (l + w) (re[l + w := re ! l], replicate n 0)
          = Some (re[l + w := re ! l], replicate n 0)"
    by (rule butterflies_noop) (use assms in \<open>simp_all add: nth_list_update\<close>)
  then show ?thesis
    using b assms(3) by (subst fft_butterflies.simps) simp
qed

text \<open>
  A stage on an array that is zero off the starts of its blocks: the groups, one after the
  other, copy the start of each block to its middle.
\<close>

lemma map_upt_update:
  "(map F [0 ..< n])[i := v] = map (F(i := v)) [0 ..< n]"
  by (simp add: list_eq_iff_nth_eq nth_list_update)

lemma in_block_mod:
  fixes j :: nat
  assumes "2 * g * w \<le> j" and "j < 2 * g * w + 2 * w"
  shows "j mod (2 * w) = j - 2 * g * w"
proof -
  have "j = (j - 2 * g * w) + g * (2 * w)"
    using assms by simp
  then have "j mod (2 * w) = ((j - 2 * g * w) + g * (2 * w)) mod (2 * w)"
    by simp
  also have "\<dots> = (j - 2 * g * w) mod (2 * w)"
    by (simp only: mod_mult_self1)
  also have "\<dots> = j - 2 * g * w"
    using assms by simp
  finally show ?thesis .
qed

lemma groups_copy:
  assumes "length re = 2 * G * w" and "0 < w" and "G \<le> length twr" and "G \<le> length twi"
    and "g \<le> G"
    and zeros: "\<And>j. j < 2 * G * w \<Longrightarrow> j mod (2 * w) \<noteq> 0 \<Longrightarrow> re ! j = 0"
  shows "fft_groups bd twr twi w w g G
           (map (\<lambda>j. if j < 2 * g * w \<and> j mod (2 * w) = w then re ! (j - w) else re ! j)
              [0 ..< 2 * G * w],
            replicate (2 * G * w) 0)
         = Some (map (\<lambda>j. if j mod (2 * w) = w then re ! (j - w) else re ! j) [0 ..< 2 * G * w],
                 replicate (2 * G * w) 0)"
  using assms(5)
proof (induction "G - g" arbitrary: g)
  case 0
  then have "g = G" by simp
  then show ?case
    by (subst fft_groups.simps) (simp cong: map_cong)
next
  case (Suc k)
  then have lt: "g < G" and k: "k = G - Suc g"
    by simp_all
  let ?n = "2 * G * w"
  let ?F = "\<lambda>g j. if j < 2 * g * w \<and> j mod (2 * w) = w then re ! (j - w) else re ! j"
  have "2 * Suc g * w \<le> 2 * G * w"
    using lt by (intro mult_le_mono) simp_all
  then have bound: "2 * g * w + 2 * w \<le> ?n"
    by simp
  have lt_n: "2 * g * w < ?n"
    using bound assms(2) by linarith
  have first: "map (?F g) [0 ..< ?n] ! (2 * g * w) = re ! (2 * g * w)"
    using lt_n by simp
  have bf: "fft_butterflies bd (twr ! g) (twi ! g) w (2 * g * w) (2 * g * w + w)
              (map (?F g) [0 ..< ?n], replicate ?n 0)
            = Some ((map (?F g) [0 ..< ?n])[2 * g * w + w := map (?F g) [0 ..< ?n] ! (2 * g * w)],
                    replicate ?n 0)"
  proof (rule group_copies_first)
    fix j assume j: "2 * g * w < j" "j < 2 * g * w + 2 * w"
    then have "j mod (2 * w) = j - 2 * g * w"
      by (intro in_block_mod) simp_all
    then have "j mod (2 * w) \<noteq> 0"
      using j by simp
    then show "map (?F g) [0 ..< ?n] ! j = 0"
      using j bound zeros [of j] by simp
  qed (use bound assms(2) in simp_all)
  have next_state: "(map (?F g) [0 ..< ?n])[2 * g * w + w := map (?F g) [0 ..< ?n] ! (2 * g * w)]
                    = map (?F (Suc g)) [0 ..< ?n]"
    unfolding first map_upt_update
  proof (rule map_cong [OF refl])
    fix j assume "j \<in> set [0 ..< ?n]"
    show "((?F g)(2 * g * w + w := re ! (2 * g * w))) j = ?F (Suc g) j"
    proof (cases "j = 2 * g * w + w")
      case True
      have "j mod (2 * w) = j - 2 * g * w"
        by (rule in_block_mod) (use True assms(2) in simp_all)
      then show ?thesis
        using True assms(2) by simp
    next
      case False
      show ?thesis
      proof (cases "2 * g * w \<le> j \<and> j < 2 * g * w + 2 * w")
        case True
        then have "j mod (2 * w) = j - 2 * g * w"
          by (intro in_block_mod) simp_all
        then have "j mod (2 * w) \<noteq> w"
          using False True by linarith
        then show ?thesis
          using False by simp
      next
        case False
        then show ?thesis
          by auto
      qed
    qed
  qed
  have "fft_groups bd twr twi w w (Suc g) G (map (?F (Suc g)) [0 ..< ?n], replicate ?n 0)
          = Some (map (\<lambda>j. if j mod (2 * w) = w then re ! (j - w) else re ! j) [0 ..< ?n],
                  replicate ?n 0)"
    by (rule Suc.hyps(1) [OF k]) (use lt in simp)
  then show ?case
    using lt bf assms(3,4)
    by (subst fft_groups.simps) (simp add: Let_def next_state del: upt_Suc)
qed


text \<open>
  On the frame with one sample: a stage takes \<open>impulse_after t (2 * wingspan)\<close> to
  \<open>impulse_after t wingspan\<close>. The blocks do not straddle index 256 from the second
  stage on, so the copy has the sign of its block.
\<close>

lemma dvd_half_block:
  fixes j w :: nat
  assumes "0 < w"
  shows "w dvd j \<longleftrightarrow> (j mod (2 * w) = 0 \<or> j mod (2 * w) = w)"
proof -
  have m: "j mod (2 * w) = w * (j div w mod 2) + j mod w"
    using mod_mult2_eq [of j w 2] by (simp add: mult.commute)
  have lt: "j mod w < w"
    using assms by simp
  consider "j div w mod 2 = 0" | "j div w mod 2 = 1"
    by linarith
  then show ?thesis
  proof cases
    case 1
    then show ?thesis
      using m lt by (auto simp: dvd_eq_mod_eq_0)
  next
    case 2
    then show ?thesis
      using m lt assms by (auto simp: dvd_eq_mod_eq_0)
  qed
qed

lemma same_half:
  fixes j w :: nat
  assumes "2 * w dvd 256" and "j mod (2 * w) = w" and "0 < w"
  shows "j - w < 256 \<longleftrightarrow> j < 256"
proof -
  obtain m where m: "256 = 2 * w * m"
    using assms(1) by (auto simp: dvd_def)
  define q where "q = j div (2 * w)"
  have "2 * w * (j div (2 * w)) + j mod (2 * w) = j"
    by (rule mult_div_mod_eq)
  then have j: "j = 2 * w * q + w"
    unfolding q_def assms(2) by simp
  have a: "j - w < 256 \<longleftrightarrow> q < m"
    using assms(3) by (simp add: j m)
  have "q < m \<Longrightarrow> 2 * w * q + w < 2 * w * m"
  proof -
    assume "q < m"
    then have "Suc q \<le> m" by simp
    then have "2 * w * Suc q \<le> 2 * w * m"
      by (intro mult_le_mono) simp_all
    then show ?thesis
      using assms(3) by simp
  qed
  moreover have "2 * w * q + w < 2 * w * m \<Longrightarrow> q < m"
  proof -
    assume "2 * w * q + w < 2 * w * m"
    then have "2 * w * q < 2 * w * m" by linarith
    then show ?thesis by simp
  qed
  ultimately have "j < 256 \<longleftrightarrow> q < m"
    unfolding j m by blast
  with a show ?thesis by simp
qed

lemma stage_on_impulse:
  assumes "G * w = 256" and "even G" and "256 \<le> length twr" and "256 \<le> length twi"
  shows "fft_groups bd twr twi w w 0 G (impulse_after t (2 * w), replicate 512 0)
           = Some (impulse_after t w, replicate 512 0)"
proof -
  have w: "0 < w"
    using assms(1) by (intro Nat.gr0I) auto
  have G: "G \<le> 256"
    using assms(1) w by (metis dvd_imp_le dvd_triv_left zero_less_numeral)
  have n: "2 * G * w = 512"
    using assms(1) by simp
  obtain k where "G = 2 * k"
    using assms(2) by (auto elim: evenE)
  then have "256 = 2 * w * k"
    using assms(1) by (simp add: mult.commute mult.left_commute)
  then have d: "2 * w dvd 256"
    by (metis dvd_triv_left)
  let ?re = "impulse_after t (2 * w)"
  have len: "length ?re = 2 * G * w"
    by (simp add: impulse_after_def n)
  have start: "map (\<lambda>j. if j < 2 * 0 * w \<and> j mod (2 * w) = w then ?re ! (j - w) else ?re ! j)
                 [0 ..< 512] = ?re"
    using map_nth [of ?re] len by (simp add: n)
  have finish: "map (\<lambda>j. if j mod (2 * w) = w then ?re ! (j - w) else ?re ! j) [0 ..< 512]
                = impulse_after t w"
    unfolding impulse_after_def [of t w]
  proof (rule map_cong [OF refl])
    fix j assume "j \<in> set [0 ..< 512]"
    then have j: "j < 512" by simp
    show "(if j mod (2 * w) = w then ?re ! (j - w) else ?re ! j)
            = (if w dvd j then if j < 256 then t else - t else 0)"
    proof (cases "j mod (2 * w) = w")
      case True
      then have "w dvd j"
        using dvd_half_block [OF w, of j] by simp
      moreover have "2 * w * (j div (2 * w)) + j mod (2 * w) = j"
        by (rule mult_div_mod_eq)
      then have "j - w = 2 * w * (j div (2 * w))"
        using True by linarith
      then have "(j - w) mod (2 * w) = 0"
        by simp
      ultimately show ?thesis
        using True j same_half [OF d True w] by (simp add: impulse_after_def dvd_eq_mod_eq_0)
    next
      case False
      then show ?thesis
        using j w dvd_half_block [OF w, of j] by (auto simp: impulse_after_def dvd_eq_mod_eq_0)
    qed
  qed
  have "fft_groups bd twr twi w w 0 G
          (map (\<lambda>j. if j < 2 * 0 * w \<and> j mod (2 * w) = w then ?re ! (j - w) else ?re ! j)
             [0 ..< 2 * G * w],
           replicate (2 * G * w) 0)
        = Some (map (\<lambda>j. if j mod (2 * w) = w then ?re ! (j - w) else ?re ! j) [0 ..< 2 * G * w],
                replicate (2 * G * w) 0)"
  proof (rule groups_copy [OF len w])
    fix j assume "j < 2 * G * w" "j mod (2 * w) \<noteq> 0"
    then show "?re ! j = 0"
      by (simp add: impulse_after_def n dvd_eq_mod_eq_0)
  qed (use assms G in simp_all)
  then show ?thesis
    unfolding n start finish .
qed


text \<open>
  The first stage has one group and the twiddle pair \<open>W[0]\<close>. Its first butterfly is the
  only product with the sample.
\<close>

lemma first_stage_on_impulse:
  assumes "twr ! 0 = 32767" and "twi ! 0 = 0" and "256 \<le> length twr" and "256 \<le> length twi"
  shows "fft_groups bd twr twi 256 256 0 1 ((replicate 512 0)[256 := c], replicate 512 0)
           = Some (impulse_after (q15_mul16 bd 32767 c) 256, replicate 512 0)"
proof -
  let ?t = "q15_mul16 bd 32767 c"
  let ?re = "(replicate 512 0)[256 := - ?t, 0 := ?t]"
  have b: "fft_butterfly bd 32767 0 256 0 ((replicate 512 0)[256 := c], replicate 512 (0::short))
             = Some (?re, replicate 512 0)"
    by (simp add: fft_butterfly_def complex_mul_def complex_add_def q15_mul16_zero_right
        q15_mul16_zero_left replicate_update_same)
  have rest: "fft_butterflies bd 32767 0 256 (Suc 0) 256 (?re, replicate 512 0)
                = Some (?re, replicate 512 0)"
    by (rule butterflies_noop) (simp_all add: nth_list_update)
  have bf: "fft_butterflies bd 32767 0 256 0 256 ((replicate 512 0)[256 := c], replicate 512 0)
              = Some (?re, replicate 512 0)"
    using b rest by (subst fft_butterflies.simps) simp
  have "\<And>j::nat. j < 512 \<Longrightarrow> (256 dvd j) = (j = 0 \<or> j = 256)"
    by presburger
  then have re: "?re = impulse_after ?t 256"
    by (auto simp: list_eq_iff_nth_eq impulse_after_def nth_list_update)
  have stop: "fft_groups bd twr twi 256 256 (Suc 0) 1 (?re, replicate 512 0)
               = Some (?re, replicate 512 0)"
    by (subst fft_groups.simps) simp
  have ne: "twr \<noteq> []" "twi \<noteq> []"
    using assms(3,4) by auto
  show ?thesis
    using assms(1,2) ne bf stop by (subst fft_groups.simps) (simp add: re)
qed

text \<open>The stages after the first, down to blocks of one element.\<close>

lemma later_stages_on_impulse:
  assumes "256 \<le> length twr" and "256 \<le> length twi" and "1 \<le> s" and "s \<le> 9"
  shows "fft_stages bd twr twi 512 (256 div 2 ^ s) (256 div 2 ^ s) (2 ^ s)
           (impulse_after t (512 div 2 ^ s), replicate 512 0)
         = Some (impulse_after t 1, replicate 512 0)"
  using assms(3,4)
proof (induction "9 - s" arbitrary: s)
  case 0
  then have "s = 9" by simp
  then show ?case
    by (subst fft_stages.simps) simp
next
  case (Suc n)
  then have lt: "s < 9" and n: "n = 9 - Suc s"
    by simp_all
  then have s8: "s \<le> 8" by simp
  have e256: "(256::nat) = 2 ^ 8"
    by simp
  have dv: "(2::nat) ^ s dvd 256"
    unfolding e256 using s8 by (rule le_imp_power_dvd)
  have p: "(2::nat) ^ s \<le> 256"
    using dv by (rule dvd_imp_le) simp
  have m: "(2::nat) ^ s * (256 div 2 ^ s) = 256"
    using dv by (rule dvd_mult_div_cancel)
  have lt512: "(2::nat) ^ s < 512"
    using p by simp
  have ev: "even ((2::nat) ^ s)"
    using Suc.prems(1) by simp
  have blk: "(512::nat) div 2 ^ s = 2 * (256 div 2 ^ s)"
    using div_mult_swap [OF dv, of 2] by simp
  have half: "drop_bit 1 ((256::nat) div 2 ^ s) = 256 div 2 ^ Suc s"
  proof -
    have "(256::nat) div 2 ^ Suc s = 256 div (2 ^ s * 2)"
      by (simp only: power_Suc mult.commute)
    also have "\<dots> = 256 div 2 ^ s div 2"
      by (rule div_mult2_eq)
    finally show ?thesis
      by (simp only: drop_bit_eq_div power_one_right)
  qed
  have blk': "(512::nat) div 2 ^ Suc s = 256 div 2 ^ s"
  proof -
    have "(512::nat) div 2 ^ Suc s = 512 div (2 * 2 ^ s)"
      by (simp only: power_Suc)
    also have "\<dots> = 512 div 2 div 2 ^ s"
      by (rule div_mult2_eq)
    finally show ?thesis
      by simp
  qed
  have dbl: "push_bit 1 ((2::nat) ^ s) = 2 ^ Suc s"
    by (simp add: push_bit_eq_mult)
  have g: "fft_groups bd twr twi (256 div 2 ^ s) (256 div 2 ^ s) 0 (2 ^ s)
             (impulse_after t (512 div 2 ^ s), replicate 512 0)
           = Some (impulse_after t (512 div 2 ^ Suc s), replicate 512 0)"
    unfolding blk blk' [unfolded blk]
    by (rule stage_on_impulse [OF m ev assms(1,2)])
  have "fft_stages bd twr twi 512 (256 div 2 ^ s) (256 div 2 ^ s) (2 ^ s)
          (impulse_after t (512 div 2 ^ s), replicate 512 0)
        = Option.bind (fft_groups bd twr twi (256 div 2 ^ s) (256 div 2 ^ s) 0 (2 ^ s)
                         (impulse_after t (512 div 2 ^ s), replicate 512 0))
            (fft_stages bd twr twi 512 (drop_bit 1 (256 div 2 ^ s)) (drop_bit 1 (256 div 2 ^ s))
               (push_bit 1 (2 ^ s)))"
    using lt512 by (subst fft_stages.simps) (simp only: if_True)
  also have "\<dots> = fft_stages bd twr twi 512 (256 div 2 ^ Suc s) (256 div 2 ^ Suc s) (2 ^ Suc s)
                     (impulse_after t (512 div 2 ^ Suc s), replicate 512 0)"
    by (simp only: g half dbl Option.bind.simps)
  also have "\<dots> = Some (impulse_after t 1, replicate 512 0)"
    by (rule Suc.hyps(1) [OF n]) (use lt in simp_all)
  finally show ?case .
qed

text \<open>
  The transform of the frame, on either board: \<open>t\<close> in the lower half and \<open>- t\<close> in the
  upper half, where \<open>t\<close> is what \<^verbatim>\<open>q15_mul16\<close> makes of 32767 and the sample.
\<close>

lemma fft_radix2_512_impulse:
  assumes "twr ! 0 = 32767" and "twi ! 0 = 0" and "256 \<le> length twr" and "256 \<le> length twi"
  shows "fft_radix2_512 bd twr twi ((replicate 512 0)[256 := c]) (replicate 512 0)
           = Some (map (\<lambda>j. if j < 256 then q15_mul16 bd 32767 c else - q15_mul16 bd 32767 c)
                     [0 ..< 512],
                   replicate 512 0)"
proof -
  have "fft_stages bd twr twi 512 256 256 1 ((replicate 512 0)[256 := c], replicate 512 0)
          = Option.bind
              (fft_groups bd twr twi 256 256 0 1 ((replicate 512 0)[256 := c], replicate 512 0))
              (fft_stages bd twr twi 512 (drop_bit 1 256) (drop_bit 1 256) (push_bit 1 1))"
    by (subst fft_stages.simps) simp
  also have "\<dots> = fft_stages bd twr twi 512 (256 div 2 ^ 1) (256 div 2 ^ 1) (2 ^ 1)
              (impulse_after (q15_mul16 bd 32767 c) (512 div 2 ^ 1), replicate 512 0)"
    by (simp only: first_stage_on_impulse [OF assms] Option.bind.simps)
       (simp add: drop_bit_eq_div push_bit_eq_mult)
  also have "\<dots> = Some (impulse_after (q15_mul16 bd 32767 c) 1, replicate 512 0)"
    by (rule later_stages_on_impulse [OF assms(3,4)]) simp_all
  finally show ?thesis
    by (simp add: fft_radix2_512_def impulse_after_def)
qed

text \<open>
  Claim C3: \<^verbatim>\<open>fft_radix2_512\<close> performs nine stages, the group count doubling while
  \<open>pairsPerGroup\<close> and \<open>wingspan\<close> halve, and each butterfly computes
  \<open>T = W[g] \<times> data[b + wingspan]\<close> by the fixed-point complex multiply, then sets
  \<open>data[b + wingspan] = data[b] - T\<close> and \<open>data[b] = data[b] + T\<close>. On the Due the
  code does that. On the Mega it does not: \<^verbatim>\<open>complex_mul\<close> multiplies with
  \<^verbatim>\<open>q15_mul16\<close>, whose product \<^verbatim>\<open>a * b\<close> is taken in the 16-bit \<^verbatim>\<open>int\<close>.
  Here the frame has the single sample 3999 at index 256 and the first twiddle pair is
  (32767, 0), that is 1.0. The first butterfly has \<open>T = 32767 \<times> 3999\<close>, in Q15 3998, and
  the transform is 3998 in the lower half and -3998 in the upper half. On the Mega the
  product wraps to 28769, \<open>T\<close> is 0, and the code returns the zero frame.
\<close>

theorem fft_radix2_512_mega_loses_impulse:
  "fft_radix2_512 ARDUINO_AVR_MEGA2560 (32767 # replicate 255 0) (replicate 256 0)
     ((replicate 512 0)[256 := 3999]) (replicate 512 0)
   = Some (replicate 512 0, replicate 512 0)
   \<and> spec_fft (32767 # replicate 255 0) (replicate 256 0)
        ((replicate 512 0)[256 := 3999], replicate 512 0)
      = (map (\<lambda>j. if j < 256 then 3998 else - 3998) [0 ..< 512], replicate 512 0)"
proof
  have mega: "q15_mul16 ARDUINO_AVR_MEGA2560 32767 3999 = 0"
    by (simp add: q15_mul16_def int_mul_def int_wrap_def int_bits_def)
  have "map (\<lambda>j. 0) [0 ..< 512] = replicate 512 (0::short)"
    by (simp only: map_replicate_const length_upt) simp
  then show "fft_radix2_512 ARDUINO_AVR_MEGA2560 (32767 # replicate 255 0) (replicate 256 0)
               ((replicate 512 0)[256 := 3999]) (replicate 512 0)
             = Some (replicate 512 0, replicate 512 0)"
    using fft_radix2_512_impulse
      [of "32767 # replicate 255 0" "replicate 256 0" ARDUINO_AVR_MEGA2560 3999]
    by (simp add: mega cong: if_cong)
  have due: "q15_mul16 ARDUINO_SAM_DUE 32767 3999 = 3998"
    by (simp add: q15_mul16_due_widened q15_widened_def)
  have "fft_radix2_512 ARDUINO_SAM_DUE (32767 # replicate 255 0) (replicate 256 0)
          ((replicate 512 0)[256 := 3999]) (replicate 512 0)
        = Some (spec_fft (32767 # replicate 255 0) (replicate 256 0)
                  ((replicate 512 0)[256 := 3999], replicate 512 0))"
    by (rule fft_radix2_512_due) simp_all
  then show "spec_fft (32767 # replicate 255 0) (replicate 256 0)
               ((replicate 512 0)[256 := 3999], replicate 512 0)
             = (map (\<lambda>j. if j < 256 then 3998 else - 3998) [0 ..< 512], replicate 512 0)"
    using fft_radix2_512_impulse
      [of "32767 # replicate 255 0" "replicate 256 0" ARDUINO_SAM_DUE 3999]
    by (simp add: due cong: if_cong)
qed

section \<open>The sampling interrupt\<close>







section \<open>The report\<close>

text \<open>
  The loop keeps \<^verbatim>\<open>first_entry\<close> and the output in step with the list of entries
  printed so far.
\<close>

lemma comma_separated_snoc:
  "comma_separated (L @ [x]) = comma_separated L @ (if L = [] then [] else [Print '','']) @ x"
  by (induction L rule: comma_separated.induct) auto

lemma report_loop_eq:
  assumes "hi < length freq_real" and "hi < length freq_imag" and "lo \<le> Suc hi"
  shows "report_loop bd fp freq_real freq_imag threshold lo hi (L = [], comma_separated L)
         = Some (L @ map (\<lambda>b. [Print_short (bin_frequency bd fp b), Print '','',
                     Print_double (bin_amplitude bd fp (freq_real ! b) (freq_imag ! b)) 4])
                     (qualifying_bins bd fp freq_real freq_imag threshold lo hi) = [],
                 comma_separated
                   (L @ map (\<lambda>b. [Print_short (bin_frequency bd fp b), Print '','',
                     Print_double (bin_amplitude bd fp (freq_real ! b) (freq_imag ! b)) 4])
                     (qualifying_bins bd fp freq_real freq_imag threshold lo hi)))"
  using assms
proof (induction "Suc hi - lo" arbitrary: lo L)
  case 0
  then have "lo = Suc hi" by simp
  then show ?case
    by (simp add: report_loop.simps qualifying_bins_def)
next
  case (Suc n)
  then have lo: "lo \<le> hi" and n: "n = Suc hi - Suc lo" by simp_all
  have upt: "[lo ..< Suc hi] = lo # [Suc lo ..< Suc hi]"
    using lo by (simp add: upt_conv_Cons)
  let ?item = "\<lambda>b. [Print_short (bin_frequency bd fp b), Print '','',
                     Print_double (bin_amplitude bd fp (freq_real ! b) (freq_imag ! b)) 4]"
  show ?case
  proof (cases "d_ge bd (bin_amplitude bd fp (freq_real ! lo) (freq_imag ! lo)) threshold")
    case True
    have "report_loop bd fp freq_real freq_imag threshold lo hi (L = [], comma_separated L)
        = report_loop bd fp freq_real freq_imag threshold (Suc lo) hi
            (L @ [?item lo] = [], comma_separated (L @ [?item lo]))"
      using lo Suc.prems True
      by (subst report_loop.simps) (simp add: comma_separated_snoc Let_def)
    also have "\<dots> = Some ((L @ [?item lo]) @ map ?item
                     (qualifying_bins bd fp freq_real freq_imag threshold (Suc lo) hi) = [],
                 comma_separated ((L @ [?item lo]) @ map ?item
                     (qualifying_bins bd fp freq_real freq_imag threshold (Suc lo) hi)))"
      by (rule Suc.hyps(1) [OF n Suc.prems(1,2)]) (use lo in simp)
    finally show ?thesis
      using True by (simp add: qualifying_bins_def upt del: upt_Suc)
  next
    case False
    have "report_loop bd fp freq_real freq_imag threshold lo hi (L = [], comma_separated L)
        = report_loop bd fp freq_real freq_imag threshold (Suc lo) hi (L = [], comma_separated L)"
      using lo Suc.prems False
      by (subst report_loop.simps) (simp add: Let_def)
    also have "\<dots> = Some (L @ map ?item
                     (qualifying_bins bd fp freq_real freq_imag threshold (Suc lo) hi) = [],
                 comma_separated (L @ map ?item
                     (qualifying_bins bd fp freq_real freq_imag threshold (Suc lo) hi)))"
      by (rule Suc.hyps(1) [OF n Suc.prems(1,2)]) (use lo in simp)
    finally show ?thesis
      using False by (simp add: qualifying_bins_def upt del: upt_Suc)
  qed
qed

lemma lower_frequency_bin_10: "lower_frequency_bin bd = 10"
  by (cases bd)
     (simp_all add: lower_frequency_bin_def int_mul_def int_wrap_def int_bits_def c_div_def
        LOWEST_FREQUENCY_REPORTED_def NUMBER_OF_GEODATA_SAMPLES_def SAMPLE_RATE_def)

lemma upper_frequency_bin_due: "upper_frequency_bin ARDUINO_SAM_DUE = 150"
  by (simp add: upper_frequency_bin_def int_mul_def int_wrap_def int_bits_def c_div_def
      HIGHEST_FREQUENCY_REPORTED_def NUMBER_OF_GEODATA_SAMPLES_def SAMPLE_RATE_def)

lemma upper_frequency_bin_mega: "upper_frequency_bin ARDUINO_AVR_MEGA2560 = 22"
  by (simp add: upper_frequency_bin_def int_mul_def int_wrap_def int_bits_def c_div_def
      HIGHEST_FREQUENCY_REPORTED_def NUMBER_OF_GEODATA_SAMPLES_def SAMPLE_RATE_def)

lemma report_eq:
  assumes "nat (upper_frequency_bin bd) < length freq_real"
    and "nat (upper_frequency_bin bd) < length freq_imag"
    and "10 \<le> upper_frequency_bin bd"
  shows "report bd fp freq_real freq_imag length' threshold report_was_created
       = Some (report_line bd fp freq_real freq_imag
                 (qualifying_bins bd fp freq_real freq_imag threshold 10
                    (nat (upper_frequency_bin bd))),
               report_was_created
               \<or> qualifying_bins bd fp freq_real freq_imag threshold 10
                    (nat (upper_frequency_bin bd)) \<noteq> [])"
proof -
  have "10 \<le> Suc (nat (upper_frequency_bin bd))"
    using assms(3) by simp
  from report_loop_eq [OF assms(1,2) this, of bd fp threshold "[]"]
  show ?thesis
    by (simp add: report_def lower_frequency_bin_10 report_line_def)
qed

text \<open>
  On the Due the report is the spec's line over the bins 10 to 150: the qualifying bins in
  ascending order, comma-separated, with a newline and the flag set exactly when there is
  one.
\<close>

lemma report_due_band:
  assumes "150 < length freq_real" and "150 < length freq_imag"
  shows "report ARDUINO_SAM_DUE fp freq_real freq_imag length' threshold report_was_created
       = Some (report_line ARDUINO_SAM_DUE fp freq_real freq_imag
                 (qualifying_bins ARDUINO_SAM_DUE fp freq_real freq_imag threshold 10 150),
               report_was_created
               \<or> qualifying_bins ARDUINO_SAM_DUE fp freq_real freq_imag threshold 10 150 \<noteq> [])"
  using report_eq [of ARDUINO_SAM_DUE freq_real freq_imag fp length' threshold report_was_created]
    assms
  by (simp add: upper_frequency_bin_due)

lemma report_mega_band:
  assumes "22 < length freq_real" and "22 < length freq_imag"
  shows "report ARDUINO_AVR_MEGA2560 fp freq_real freq_imag length' threshold report_was_created
       = Some (report_line ARDUINO_AVR_MEGA2560 fp freq_real freq_imag
                 (qualifying_bins ARDUINO_AVR_MEGA2560 fp freq_real freq_imag threshold 10 22),
               report_was_created
               \<or> qualifying_bins ARDUINO_AVR_MEGA2560 fp freq_real freq_imag threshold 10 22
                    \<noteq> [])"
  using report_eq
    [of ARDUINO_AVR_MEGA2560 freq_real freq_imag fp length' threshold report_was_created] assms
  by (simp add: upper_frequency_bin_mega)

lemma qualifying_bins_cong:
  assumes "\<And>b. lo \<le> b \<Longrightarrow> b \<le> hi \<Longrightarrow> re ! b = re' ! b \<and> im ! b = im' ! b"
  shows "qualifying_bins bd fp re im threshold lo hi = qualifying_bins bd fp re' im' threshold lo hi"
  unfolding qualifying_bins_def
  by (rule filter_cong) (use assms in auto)

lemma report_line_cong:
  assumes "\<And>b. b \<in> set bins \<Longrightarrow> re ! b = re' ! b \<and> im ! b = im' ! b"
  shows "report_line bd fp re im bins = report_line bd fp re' im' bins"
proof -
  have m: "map (\<lambda>b. [Print_short (bin_frequency bd fp b), Print '','',
                   Print_double (bin_amplitude bd fp (re ! b) (im ! b)) 4]) bins
      = map (\<lambda>b. [Print_short (bin_frequency bd fp b), Print '','',
                   Print_double (bin_amplitude bd fp (re' ! b) (im' ! b)) 4]) bins"
    by (rule map_cong) (use assms in auto)
  show ?thesis
    unfolding report_line_def by (simp only: m)
qed

lemma qualifying_bins_range:
  "b \<in> set (qualifying_bins bd fp re im threshold lo hi) \<Longrightarrow> lo \<le> b \<and> b \<le> hi"
  by (auto simp: qualifying_bins_def)

text \<open>
  Claim C7: \<^verbatim>\<open>report\<close> walks the bins from 10 to \<open>HighBin = 150\<close>. On the Mega it
  does not: \<^verbatim>\<open>HIGHEST_FREQUENCY_REPORTED * NUMBER_OF_GEODATA_SAMPLES\<close> is
  \<open>150 * 512 = 76800\<close>, which does not fit the 16-bit \<^verbatim>\<open>int\<close> and wraps to 11264, so
  the upper bin is \<open>11264 / 512 = 22\<close>. A frame whose only non-zero bin is bin 100 (100 Hz,
  inside the band the claim names) gets the report of the all-zero frame, whatever the
  threshold and the floating-point unit.
\<close>

theorem report_mega_band_ends_at_22:
  "upper_frequency_bin ARDUINO_AVR_MEGA2560 = 22
   \<and> report ARDUINO_AVR_MEGA2560 fp ((replicate 512 0)[100 := 16384]) (replicate 512 0) 257
         threshold False
     = report ARDUINO_AVR_MEGA2560 fp (replicate 512 0) (replicate 512 0) 257 threshold False"
proof -
  let ?re = "(replicate 512 (0 :: short))[100 := 16384]" and ?z = "replicate 512 (0 :: short)"
  have same: "\<And>b. 10 \<le> b \<Longrightarrow> b \<le> 22 \<Longrightarrow> ?re ! b = ?z ! b \<and> ?z ! b = ?z ! b"
    by simp
  have q: "qualifying_bins ARDUINO_AVR_MEGA2560 fp ?re ?z threshold 10 22
         = qualifying_bins ARDUINO_AVR_MEGA2560 fp ?z ?z threshold 10 22"
    by (rule qualifying_bins_cong) (rule same)
  have l: "report_line ARDUINO_AVR_MEGA2560 fp ?re ?z
             (qualifying_bins ARDUINO_AVR_MEGA2560 fp ?z ?z threshold 10 22)
         = report_line ARDUINO_AVR_MEGA2560 fp ?z ?z
             (qualifying_bins ARDUINO_AVR_MEGA2560 fp ?z ?z threshold 10 22)"
    by (rule report_line_cong) (use qualifying_bins_range same in blast)
  show ?thesis
    by (simp add: upper_frequency_bin_mega report_mega_band q l)
qed

section \<open>The threshold protocol\<close>

text \<open>The literals decode to the values they denote, on both boards.\<close>

lemma fp_val_0_0: "fp_val bd d_0_0 = Fin 0"
  by (cases bd) (simp_all add: fp_val_def d_0_0_def exponent_bits_def mantissa_bits_def)

lemma fp_val_1_0: "fp_val bd (d_1_0 bd) = Fin 1"
  by (cases bd) (simp_all add: fp_val_def d_1_0_def exponent_bits_def mantissa_bits_def)

lemma fp_val_minus_1_0: "fp_val bd (d_minus_1_0 bd) = Fin (- 1)"
  by (cases bd) (simp_all add: fp_val_def d_minus_1_0_def exponent_bits_def mantissa_bits_def)

lemma fp_val_0_5: "fp_val bd (d_0_5 bd) = Fin (1 / 2)"
  by (cases bd) (simp_all add: fp_val_def d_0_5_def exponent_bits_def mantissa_bits_def)

lemma fp_val_32768_0: "fp_val bd (d_32768_0 bd) = Fin 32768"
  by (cases bd) (simp_all add: fp_val_def d_32768_0_def exponent_bits_def mantissa_bits_def)

lemma minus_one_not_positive: "\<not> d_gt bd (d_minus_1_0 bd) d_0_0"
  by (simp add: d_gt_def fp_val_0_0 fp_val_minus_1_0)

lemma zero_not_positive: "\<not> d_gt bd d_0_0 d_0_0"
  by (simp add: d_gt_def fp_val_0_0)

lemma zero_passes_range_check: "\<not> (d_lt bd d_0_0 d_0_0 \<or> d_ge bd d_0_0 (d_1_0 bd))"
  by (simp add: d_lt_def d_ge_def d_gt_def d_eq_def fp_val_0_0 fp_val_1_0)

text \<open>
  What the range check of \<^verbatim>\<open>get_new_threshold\<close> and the test of \<^verbatim>\<open>loop\<close> leave
  together: a value in \<open>(0.0, 1.0)\<close>.
\<close>

lemma positive_and_checked_in_unit_interval:
  assumes "d_gt bd t d_0_0" and "\<not> d_ge bd t (d_1_0 bd)"
  shows "in_unit_interval bd t"
proof (cases "fp_val bd t")
  case (Fin x)
  with assms show ?thesis
    by (auto simp: in_unit_interval_def d_ge_def d_gt_def d_lt_def d_eq_def fp_val_0_0 fp_val_1_0)
qed (use assms in \<open>simp_all add: d_ge_def d_gt_def d_eq_def fp_val_0_0 fp_val_1_0\<close>)

text \<open>The outcomes of one call of \<^verbatim>\<open>get_new_threshold\<close>, by what it printed.\<close>

lemma get_new_threshold_cases:
  assumes "get_new_threshold bd atof now p rx = (t, p', rx', out)"
  shows "(out = [] \<and> t = d_minus_1_0 bd)
       \<or> (\<exists>e \<in> {''E:TIMEOUT'', ''E:OVERFLOW'', ''E:NON-NUMERIC'', ''E:FLUSH''}.
            out = [Println e] \<and> t = d_minus_1_0 bd \<and> threshold_string_pos p' = 0 \<and> rx' = [])
       \<or> (out = [Print ''OK:'', Println_double t 2] \<and> threshold_string_pos p' = 0 \<and> rx' = []
            \<and> threshold_string_pos p \<le> 18
            \<and> t = atof (c_string (threshold_string p'))
            \<and> \<not> d_lt bd t d_0_0 \<and> \<not> d_ge bd t (d_1_0 bd))"
  using assms
  by (auto simp: get_new_threshold_def Let_def sizeof_threshold_string_def split: if_splits)

text \<open>The four rejections, each from its condition in the source.\<close>

lemma timeout_rejected:
  assumes "threshold_string_pos p > 0" and "timestamp p + timeout < now"
  shows "get_new_threshold bd atof now p rx
           = (d_minus_1_0 bd, p\<lparr>threshold_string_pos := 0\<rparr>, [], [Println ''E:TIMEOUT''])"
  using assms by (simp add: get_new_threshold_def)

lemma flush_rejected:
  assumes "threshold_string_pos p \<ge> 19" and "\<not> timestamp p + timeout < now" and "rx \<noteq> []"
  shows "get_new_threshold bd atof now p rx
           = (d_minus_1_0 bd, p\<lparr>threshold_string_pos := 0\<rparr>, [], [Println ''E:FLUSH''])"
  using assms by (simp add: get_new_threshold_def sizeof_threshold_string_def)

lemma non_numeric_rejected:
  assumes "threshold_string_pos p < 19"
    and "\<not> (threshold_string_pos p > 0 \<and> timestamp p + timeout < now)"
    and "\<not> is_terminator c" and "\<not> is_numerical c"
  shows "\<exists>p'. get_new_threshold bd atof now p (c # rx)
           = (d_minus_1_0 bd, p', [], [Println ''E:NON-NUMERIC'']) \<and> threshold_string_pos p' = 0"
  using assms by (auto simp: get_new_threshold_def sizeof_threshold_string_def Let_def)

lemma overflow_rejected:
  assumes "threshold_string_pos p < 19"
    and "\<not> (threshold_string_pos p > 0 \<and> timestamp p + timeout < now)"
    and "is_terminator c"
    and "t = atof (c_string ((threshold_string p)(threshold_string_pos p := CHR 0x00)))"
    and "d_lt bd t d_0_0 \<or> d_ge bd t (d_1_0 bd)"
  shows "\<exists>p'. get_new_threshold bd atof now p (c # rx)
           = (d_minus_1_0 bd, p', [], [Println ''E:OVERFLOW'']) \<and> threshold_string_pos p' = 0"
  using assms
  by (cases "threshold_string_pos p = 0")
     (simp_all add: get_new_threshold_def sizeof_threshold_string_def Let_def)

text \<open>
  Claim C5: on every rejection (\<open>E:OVERFLOW\<close>, \<open>E:NON-NUMERIC\<close>, \<open>E:FLUSH\<close>,
  \<open>E:TIMEOUT\<close>) the pass of the main loop prints exactly that one line, the parser is back
  at position 0 with the serial input flushed, and neither the live threshold nor the
  store has changed.
\<close>

theorem rejection_keeps_threshold:
  assumes "loop bd atof now dev rx = (dev', rx', out)"
    and "e \<in> {''E:OVERFLOW'', ''E:NON-NUMERIC'', ''E:FLUSH'', ''E:TIMEOUT''}"
    and "Println e \<in> set out"
  shows "out = [Println e] \<and> threshold_string_pos (statics dev') = 0 \<and> rx' = []
       \<and> amplitude_threshold dev' = amplitude_threshold dev \<and> EEPROM dev' = EEPROM dev"
proof -
  obtain t p where g: "get_new_threshold bd atof now (statics dev) rx = (t, p, rx', out)"
    and d: "dev' = (if d_gt bd t d_0_0
               then dev\<lparr>statics := p,
                        EEPROM := save_amplitude_threshold_to_eeprom bd t (EEPROM dev),
                        amplitude_threshold := t\<rparr>
               else dev\<lparr>statics := p\<rparr>)"
    using assms(1) by (auto simp: loop_def Let_def split: prod.splits if_splits)
  from get_new_threshold_cases [OF g] assms(2,3)
  have "out = [Println e] \<and> t = d_minus_1_0 bd \<and> threshold_string_pos p = 0 \<and> rx' = []"
    by auto
  then show ?thesis
    using d minus_one_not_positive by simp
qed

text \<open>
  The spec's example \<open>1.5\<close> followed by a newline; \<open>atof\<close> is any function that reads
  \<open>1.5\<close> as 1.5.
\<close>

lemma loop_1_5:
  "loop ARDUINO_AVR_MEGA2560 (atof(''1.5'' := 0x3FC00000)) 10 accumulated_1_5 [CHR 0x0A]
   = (accumulated_1_5\<lparr>statics :=
        \<lparr>threshold_string =
           (\<lambda>i. CHR 0x00)(0 := CHR ''1'', 1 := CHR ''.'', 2 := CHR ''5'', 3 := CHR 0x00),
         threshold_string_pos = 0, timestamp = 0\<rparr>\<rparr>,
      [], [Println ''E:OVERFLOW''])"
proof -
  have over: "d_ge ARDUINO_AVR_MEGA2560 0x3FC00000 (d_1_0 ARDUINO_AVR_MEGA2560)"
    by (simp add: d_ge_def d_gt_def fp_val_1_0)
       (simp add: fp_val_def exponent_bits_def mantissa_bits_def)
  show ?thesis
    by (simp add: loop_def get_new_threshold_def accumulated_1_5_def Let_def timeout_def
        sizeof_threshold_string_def is_terminator_def c_string_def upt_rec over
        minus_one_not_positive)
qed

theorem rejection_keeps_threshold_witness:
  "snd (snd (loop ARDUINO_AVR_MEGA2560 ((\<lambda>s. 0)(''1.5'' := 0x3FC00000)) 10 accumulated_1_5
               [CHR 0x0A])) = [Println ''E:OVERFLOW'']
   \<and> amplitude_threshold
        (fst (loop ARDUINO_AVR_MEGA2560 ((\<lambda>s. 0)(''1.5'' := 0x3FC00000)) 10 accumulated_1_5
                [CHR 0x0A])) = amplitude_threshold accumulated_1_5
   \<and> EEPROM
        (fst (loop ARDUINO_AVR_MEGA2560 ((\<lambda>s. 0)(''1.5'' := 0x3FC00000)) 10 accumulated_1_5
                [CHR 0x0A])) = EEPROM accumulated_1_5"
  using rejection_keeps_threshold
    [of ARDUINO_AVR_MEGA2560 "(\<lambda>s. 0)(''1.5'' := 0x3FC00000)" 10 accumulated_1_5 "[CHR 0x0A]"
        _ "[]" "[Println ''E:OVERFLOW'']" "''E:OVERFLOW''", OF loop_1_5]
  by (simp add: loop_1_5)

text \<open>The text handed to \<^verbatim>\<open>atof\<close> ends at the NUL written at the position.\<close>

lemma length_takeWhile_stop:
  "i < length xs \<Longrightarrow> \<not> P (xs ! i) \<Longrightarrow> length (takeWhile P xs) \<le> i"
proof (induction xs arbitrary: i)
  case Nil
  then show ?case by simp
next
  case (Cons x xs)
  then show ?case by (cases i) auto
qed

lemma c_string_terminated:
  assumes "i < sizeof_threshold_string"
  shows "length (c_string (buf(i := CHR 0x00))) \<le> i"
  unfolding c_string_def
  by (rule length_takeWhile_stop) (use assms in simp_all)

text \<open>
  Claim C10, with the deadline it leaves out: once 19 bytes are accumulated, the next byte
  handled before the 250 ms deadline has elapsed, whatever it is (a terminator too), is
  answered with \<open>E:FLUSH\<close> and the input is discarded; so a line is parsed and accepted
  only from a position of at most 18, and the text parsed has at most 18 characters. The
  position never goes past 19, one less than the 20 bytes of the buffer.
\<close>

theorem nineteen_bytes_flush:
  "(threshold_string_pos p = 19 \<and> rx \<noteq> [] \<and> \<not> timestamp p + timeout < now \<longrightarrow>
      get_new_threshold bd atof now p rx
        = (d_minus_1_0 bd, p\<lparr>threshold_string_pos := 0\<rparr>, [], [Println ''E:FLUSH'']))
   \<and> (get_new_threshold bd atof now p rx = (t, p', rx', out) \<and> Print ''OK:'' \<in> set out \<longrightarrow>
        threshold_string_pos p \<le> 18
        \<and> t = atof (c_string (threshold_string p'))
        \<and> length (c_string (threshold_string p')) \<le> 18)
   \<and> (get_new_threshold bd atof now p rx = (t, p', rx', out) \<and> threshold_string_pos p \<le> 19 \<longrightarrow>
        threshold_string_pos p' \<le> 19)"
proof (intro conjI impI)
  assume "threshold_string_pos p = 19 \<and> rx \<noteq> [] \<and> \<not> timestamp p + timeout < now"
  then show "get_new_threshold bd atof now p rx
        = (d_minus_1_0 bd, p\<lparr>threshold_string_pos := 0\<rparr>, [], [Println ''E:FLUSH''])"
    by (simp add: flush_rejected)
next
  assume a: "get_new_threshold bd atof now p rx = (t, p', rx', out) \<and> Print ''OK:'' \<in> set out"
  then have pos: "threshold_string_pos p \<le> 18"
    by (auto simp: get_new_threshold_def Let_def sizeof_threshold_string_def split: if_splits)
  from a have buf: "threshold_string p' = (threshold_string p)(threshold_string_pos p := CHR 0x00)"
    and t: "t = atof (c_string (threshold_string p'))"
    by (auto simp: get_new_threshold_def Let_def sizeof_threshold_string_def split: if_splits)
  have "length (c_string (threshold_string p')) \<le> threshold_string_pos p"
    unfolding buf
    by (rule c_string_terminated) (use pos in \<open>simp add: sizeof_threshold_string_def\<close>)
  with pos t show "threshold_string_pos p \<le> 18" "t = atof (c_string (threshold_string p'))"
    "length (c_string (threshold_string p')) \<le> 18"
    by simp_all
next
  assume "get_new_threshold bd atof now p rx = (t, p', rx', out) \<and> threshold_string_pos p \<le> 19"
  then show "threshold_string_pos p' \<le> 19"
    by (auto simp: get_new_threshold_def Let_def sizeof_threshold_string_def split: if_splits)
qed

text \<open>Nineteen digits are in the buffer and the newline arrives, 100 ms after the first.\<close>

theorem nineteen_bytes_flush_witness:
  "get_new_threshold ARDUINO_AVR_MEGA2560 (\<lambda>s. d_0_5 ARDUINO_AVR_MEGA2560) 100
     \<lparr>threshold_string = (\<lambda>i. CHR ''1''), threshold_string_pos = 19, timestamp = 0\<rparr> [CHR 0x0A]
   = (d_minus_1_0 ARDUINO_AVR_MEGA2560,
      \<lparr>threshold_string = (\<lambda>i. CHR ''1''), threshold_string_pos = 0, timestamp = 0\<rparr>,
      [], [Println ''E:FLUSH''])"
  using nineteen_bytes_flush
    [of "\<lparr>threshold_string = (\<lambda>i. CHR ''1''), threshold_string_pos = 19, timestamp = 0\<rparr>"
        "[CHR 0x0A]" 100 ARDUINO_AVR_MEGA2560 "\<lambda>s. d_0_5 ARDUINO_AVR_MEGA2560"]
  by (simp add: timeout_def)

text \<open>
  Claim C10 as it is stated, for every next byte, does not hold: the deadline is tested
  first (lines 595 to 600). Nineteen digits are in the buffer and the newline arrives 251 ms
  after the first: the answer is \<open>E:TIMEOUT\<close>, not \<open>E:FLUSH\<close>.
\<close>

theorem nineteen_bytes_timeout_first:
  "get_new_threshold ARDUINO_AVR_MEGA2560 (\<lambda>s. d_0_5 ARDUINO_AVR_MEGA2560) 251
     \<lparr>threshold_string = (\<lambda>i. CHR ''1''), threshold_string_pos = 19, timestamp = 0\<rparr> [CHR 0x0A]
   = (d_minus_1_0 ARDUINO_AVR_MEGA2560,
      \<lparr>threshold_string = (\<lambda>i. CHR ''1''), threshold_string_pos = 0, timestamp = 0\<rparr>,
      [], [Println ''E:TIMEOUT''])
   \<and> get_new_threshold ARDUINO_AVR_MEGA2560 (\<lambda>s. d_0_5 ARDUINO_AVR_MEGA2560) 251
       \<lparr>threshold_string = (\<lambda>i. CHR ''1''), threshold_string_pos = 19, timestamp = 0\<rparr> [CHR 0x0A]
     \<noteq> (d_minus_1_0 ARDUINO_AVR_MEGA2560,
        \<lparr>threshold_string = (\<lambda>i. CHR ''1''), threshold_string_pos = 0, timestamp = 0\<rparr>,
        [], [Println ''E:FLUSH''])"
  by (simp add: get_new_threshold_def timeout_def)

text \<open>
  An accepted value that is positive is applied: the pass sets the live threshold to it
  and hands it to the store routine.
\<close>

lemma accepted_positive_applied:
  assumes "get_new_threshold bd atof now (statics dev) rx = (t, p, rx', out)"
    and "d_gt bd t d_0_0"
  shows "loop bd atof now dev rx
           = (dev\<lparr>statics := p,
                  EEPROM := save_amplitude_threshold_to_eeprom bd t (EEPROM dev),
                  amplitude_threshold := t\<rparr>, rx', out)
         \<and> out = [Print ''OK:'', Println_double t 2]"
proof -
  have "t \<noteq> d_minus_1_0 bd"
    using assms(2) minus_one_not_positive by auto
  with get_new_threshold_cases [OF assms(1)]
  have "out = [Print ''OK:'', Println_double t 2]"
    by auto
  then show ?thesis
    using assms by (simp add: loop_def)
qed

text \<open>On the Mega the store routine writes the four bytes of the value.\<close>

lemma save_writes_bytes:
  assumes "i < 4"
  shows "save_amplitude_threshold_to_eeprom ARDUINO_AVR_MEGA2560 t rom i = threshold_bytes t i"
proof -
  consider "i = 0" | "i = 1" | "i = 2" | "i = 3"
    using assms by arith
  then show ?thesis
    by cases
       (simp_all add: save_amplitude_threshold_to_eeprom_def sizeof_double_def upt_rec
          AMPLITUDE_THRESHOLD_EEPROM_ADDRESS_def numeral_2_eq_2 numeral_3_eq_3)
qed

text \<open>
  Claim C1: every terminated line whose text \<^verbatim>\<open>atof\<close> reads as a value in
  \<open>[0.0, 1.0)\<close> is answered with \<open>OK:\<close> and the value, and the main loop then sets the
  live threshold to it and stores it, also for 0.0. The code does not do the last for 0.0:
  \<^verbatim>\<open>loop\<close> applies the returned value only \<^verbatim>\<open>if( threshold > 0.0 )\<close>. Here the line
  \<open>0\<close> arrives (\<open>atof\<close> is any function that reads \<open>0\<close> as 0.0), from the state
  \<^verbatim>\<open>setup\<close> leaves, on either board and whatever the store holds: \<open>OK:\<close> is printed
  with 0.0, and the live threshold and the store are what they were.
\<close>

theorem zero_accepted_not_applied:
  "loops bd (atof(''0'' := d_0_0)) [(0, ''0''), (1, [CHR 0x0A])] (setup' bd rom, [], [])
   = ((setup' bd rom)
        \<lparr>statics := \<lparr>threshold_string = (\<lambda>i. CHR 0x00)(0 := CHR ''0'', 1 := CHR 0x00),
                     threshold_string_pos = 0, timestamp = 0\<rparr>\<rparr>,
      [], [Print ''OK:'', Println_double d_0_0 2])"
  by (simp add: loop_def get_new_threshold_def setup'_def Let_def sizeof_threshold_string_def
      is_terminator_def is_numerical_def timeout_def zero_not_positive minus_one_not_positive
      c_string_def upt_rec zero_passes_range_check)

section \<open>The threshold stays in range, once it is\<close>

text \<open>A pass of the main loop changes the live threshold only by an accepted update.\<close>

lemma threshold_changed_only_by_accept:
  assumes "loop bd atof now dev rx = (dev', rx', out)"
    and "amplitude_threshold dev' \<noteq> amplitude_threshold dev"
  shows "out = [Print ''OK:'', Println_double (amplitude_threshold dev') 2]
       \<and> EEPROM dev'
           = save_amplitude_threshold_to_eeprom bd (amplitude_threshold dev') (EEPROM dev)
       \<and> in_unit_interval bd (amplitude_threshold dev')"
proof -
  obtain t p where g: "get_new_threshold bd atof now (statics dev) rx = (t, p, rx', out)"
    and d: "dev' = (if d_gt bd t d_0_0
               then dev\<lparr>statics := p,
                        EEPROM := save_amplitude_threshold_to_eeprom bd t (EEPROM dev),
                        amplitude_threshold := t\<rparr>
               else dev\<lparr>statics := p\<rparr>)"
    using assms(1) by (auto simp: loop_def Let_def split: prod.splits if_splits)
  from d assms(2) have pos: "d_gt bd t d_0_0"
    by (auto split: if_splits)
  then have "t \<noteq> d_minus_1_0 bd"
    using minus_one_not_positive by auto
  with get_new_threshold_cases [OF g]
  have "out = [Print ''OK:'', Println_double t 2]" and "\<not> d_ge bd t (d_1_0 bd)"
    by auto
  then show ?thesis
    using d pos positive_and_checked_in_unit_interval by simp
qed

lemma loop_keeps_unit_interval:
  assumes "loop bd atof now dev rx = (dev', rx', out)"
    and "in_unit_interval bd (amplitude_threshold dev)"
  shows "in_unit_interval bd (amplitude_threshold dev')"
  using threshold_changed_only_by_accept [OF assms(1)] assms(2)
  by (cases "amplitude_threshold dev' = amplitude_threshold dev") auto

lemma loops_keep_unit_interval:
  assumes "loops bd atof passes (dev, rx, printed) = (dev', rx', printed')"
    and "in_unit_interval bd (amplitude_threshold dev)"
  shows "in_unit_interval bd (amplitude_threshold dev')"
  using assms
proof (induction passes arbitrary: dev rx printed)
  case Nil
  then show ?case by simp
next
  case (Cons pass passes)
  obtain now arrived where pass: "pass = (now, arrived)"
    by (cases pass)
  obtain dev1 rx1 out1 where l: "loop bd atof now dev (rx @ arrived) = (dev1, rx1, out1)"
    by (cases "loop bd atof now dev (rx @ arrived)")
  from Cons.prems(1) have "loops bd atof passes (dev1, rx1, printed @ out1) = (dev', rx', printed')"
    by (simp add: pass l)
  moreover have "in_unit_interval bd (amplitude_threshold dev1)"
    using loop_keeps_unit_interval [OF l Cons.prems(2)] .
  ultimately show ?case
    by (rule Cons.IH)
qed

text \<open>
  When the store reads as 0.0 (always on the Due) the threshold starts at the default 0.5,
  which is in range.
\<close>

lemma startup_default:
  assumes "bd = ARDUINO_SAM_DUE \<or> (\<forall>i < 4. rom i = 0)"
  shows "amplitude_threshold (setup' bd rom) = d_0_5 bd
       \<and> in_unit_interval bd (amplitude_threshold (setup' bd rom))"
proof -
  have unit: "in_unit_interval bd (d_0_5 bd)"
    by (simp add: in_unit_interval_def d_ge_def d_gt_def d_lt_def fp_val_0_0 fp_val_0_5 fp_val_1_0)
  have "double_of_bytes
          (map (\<lambda>i. case bd of
                      ARDUINO_AVR_MEGA2560 \<Rightarrow> rom (AMPLITUDE_THRESHOLD_EEPROM_ADDRESS + i)
                    | ARDUINO_SAM_DUE \<Rightarrow> 0)
             [0 ..< sizeof_double bd]) = d_0_0"
    using assms
    by (cases bd)
       (auto simp: double_of_bytes_def sizeof_double_def AMPLITUDE_THRESHOLD_EEPROM_ADDRESS_def
          upt_rec d_0_0_def)
  then have "read_amplitude_threshold_from_eeprom bd rom = d_0_5 bd"
    by (simp add: read_amplitude_threshold_from_eeprom_def DEFAULT_AMPLITUDE_THRESHOLD_def
        d_eq_def fp_val_0_0)
  then show ?thesis
    using unit by (simp add: setup'_def)
qed

text \<open>
  Claim C9: the live threshold is in \<open>[0.0, 1.0)\<close> at every reachable state, also right
  after the start from the store. The code loads whatever the store holds unless it reads
  as 0.0. An EEPROM that was never written reads \<open>0xFF\<close> in every byte; on the Mega
  \<^verbatim>\<open>setup\<close> then leaves the bit pattern \<open>0xFFFFFFFF\<close> as the live threshold, a NaN,
  which is not in the interval (and not the default).
\<close>

theorem erased_store_threshold_nan:
  "amplitude_threshold (setup' ARDUINO_AVR_MEGA2560 (\<lambda>a. 0xFF)) = 0xFFFFFFFF
   \<and> fp_val ARDUINO_AVR_MEGA2560 (amplitude_threshold (setup' ARDUINO_AVR_MEGA2560 (\<lambda>a. 0xFF)))
       = NaN
   \<and> \<not> in_unit_interval ARDUINO_AVR_MEGA2560
         (amplitude_threshold (setup' ARDUINO_AVR_MEGA2560 (\<lambda>a. 0xFF)))"
  by (simp add: setup'_def read_amplitude_threshold_from_eeprom_def double_of_bytes_def
      sizeof_double_def AMPLITUDE_THRESHOLD_EEPROM_ADDRESS_def d_eq_def fp_val_def d_0_0_def
      exponent_bits_def mantissa_bits_def upt_rec in_unit_interval_def d_ge_def d_gt_def
      d_lt_def d_1_0_def)

end
